theory Spec2Isabelle
  imports Complex_Main "HOL-Library.Sublist"
begin

section \<open>Bulk sender scripts: data model\<close>

text \<open>
  JavaScript strings are modelled as \<^typ>\<open>string\<close>, one \<^typ>\<open>char\<close> per code unit
  (code units below 256; the CSV sources hold ASCII). A \<^verbatim>\<open>bigint\<close> is an
  \<^typ>\<open>int\<close>. A \<^verbatim>\<open>Map<string, bigint>\<close> is an association list in
  insertion order with pairwise distinct keys: \<^verbatim>\<open>get\<close> looks a key up,
  \<^verbatim>\<open>set\<close> replaces the value of a key already present (the key keeps its
  position) and appends a new key otherwise, and iteration visits the entries in
  list order.
\<close>

type_synonym address = string

type_synonym js_map = "(string \<times> int) list"

definition map_get :: "js_map \<Rightarrow> string \<Rightarrow> int option" where
  "map_get m k = map_of m k"

fun map_set :: "js_map \<Rightarrow> string \<Rightarrow> int \<Rightarrow> js_map" where
  "map_set [] k v = [(k, v)]"
| "map_set ((k', v') # m) k v = (if k' = k then (k, v) # m else (k', v') # map_set m k v)"

section \<open>Full reconciliation: \<^verbatim>\<open>verifyTransfers\<close>\<close>

record VerificationResult =
  address :: address
  startBalance :: int
  expectedAmount :: int
  endBalance :: int
  calculatedEnd :: int
  matches :: bool
  difference :: "int option"

text \<open>\<^verbatim>\<open>m.get(k) || 0n\<close>: an absent key gives \<^verbatim>\<open>undefined\<close> and a stored
  \<^verbatim>\<open>0n\<close> is falsy; both yield \<^verbatim>\<open>0n\<close>.\<close>

definition get_or_zero :: "js_map \<Rightarrow> string \<Rightarrow> int" where
  "get_or_zero m k = (case map_get m k of None \<Rightarrow> 0 | Some v \<Rightarrow> (if v = 0 then 0 else v))"

definition verifyEntry :: "js_map \<Rightarrow> js_map \<Rightarrow> address \<times> int \<Rightarrow> VerificationResult" where
  "verifyEntry startBalances endBalances entry =
     (let addr = fst entry;
          expected = snd entry;
          startB = get_or_zero startBalances addr;
          endB = get_or_zero endBalances addr;
          calculated = startB + expected;
          m = (endB = calculated);
          d = (if m then None else Some (endB - calculated))
      in \<lparr>address = addr, startBalance = startB, expectedAmount = expected,
          endBalance = endB, calculatedEnd = calculated, matches = m, difference = d\<rparr>)"

fun verifyTransfers_loop ::
  "js_map \<Rightarrow> js_map \<Rightarrow> js_map \<Rightarrow> VerificationResult list \<Rightarrow> VerificationResult list" where
  "verifyTransfers_loop startBalances endBalances [] results = results"
| "verifyTransfers_loop startBalances endBalances (entry # recipients) results =
     verifyTransfers_loop startBalances endBalances recipients
       (results @ [verifyEntry startBalances endBalances entry])"

definition verifyTransfers :: "js_map \<Rightarrow> js_map \<Rightarrow> js_map \<Rightarrow> VerificationResult list" where
  "verifyTransfers startBalances endBalances recipients =
     verifyTransfers_loop startBalances endBalances recipients []"

section \<open>Batch partitioning: \<^verbatim>\<open>createBatches\<close>\<close>

text \<open>\<^verbatim>\<open>Array.prototype.slice(start, end)\<close> on integer arguments: a negative
  index counts from the end of the array, both indices are clamped to the array, and
  an empty range gives the empty array.\<close>

definition slice :: "'a list \<Rightarrow> int \<Rightarrow> int \<Rightarrow> 'a list" where
  "slice xs start fin =
     (let len = int (length xs);
          k = (if start < 0 then max (len + start) 0 else min start len);
          final = (if fin < 0 then max (len + fin) 0 else min fin len)
      in take (nat (final - k)) (drop (nat k) xs))"

text \<open>The \<^verbatim>\<open>for\<close> loop of \<^verbatim>\<open>createBatches\<close>, with the loop variable
  \<open>i\<close> and the array of batches built so far. The batch size is an integer of
  any sign; the loop need not end, so the function is partial and \<open>None\<close> stands
  for a run that never returns.\<close>

partial_function (option) createBatches_loop ::
  "'a list \<Rightarrow> int \<Rightarrow> int \<Rightarrow> 'a list list \<Rightarrow> 'a list list option" where
  "createBatches_loop array batchSize i batches =
     (if i < int (length array)
      then createBatches_loop array batchSize (i + batchSize)
             (batches @ [slice array i (i + batchSize)])
      else Some batches)"

declare createBatches_loop.simps [code]

definition createBatches :: "'a list \<Rightarrow> int \<Rightarrow> 'a list list option" where
  "createBatches array batchSize = createBatches_loop array batchSize 0 []"

section \<open>Errors\<close>

text \<open>Every \<^verbatim>\<open>throw\<close> of the scripts and every rejected promise of an external
  client is a value of this type; the message text is replaced by its arguments.\<close>

type_synonym hash = string

datatype error =
    InvalidAmountFormat string
  | SyntaxError string
  | TypeError
  | InsufficientTokenBalance int int
  | ApprovalFailed int int
  | TransactionReverted hash
  | TransferVerificationFailed address
  | ClientError string
  | InvalidRow nat
  | InvalidAddressFormat nat string
  | InvalidAmount nat string error
  | AmountNotPositive nat int

section \<open>Strings and \<^verbatim>\<open>BigInt\<close>\<close>

text \<open>The regular-expression class \<^verbatim>\<open>\s\<close> and the white space trimmed by
  \<^verbatim>\<open>BigInt\<close>, among code units below 256: tab, line feed, vertical tab, form
  feed, carriage return, space and no-break space.\<close>

definition is_space :: "char \<Rightarrow> bool" where
  "is_space c \<longleftrightarrow> c \<in> {CHR 0x09, CHR 0x0A, CHR 0x0B, CHR 0x0C, CHR 0x0D, CHR 0x20, CHR 0xA0}"

text \<open>The class \<^verbatim>\<open>["'\s]\<close>.\<close>

definition is_quote_or_space :: "char \<Rightarrow> bool" where
  "is_quote_or_space c \<longleftrightarrow> c = CHR 0x22 \<or> c = CHR 0x27 \<or> is_space c"

text \<open>The class \<^verbatim>\<open>\d\<close>.\<close>

definition is_digit :: "char \<Rightarrow> bool" where
  "is_digit c \<longleftrightarrow> 48 \<le> (of_char c :: nat) \<and> (of_char c :: nat) \<le> 57"

definition is_letter :: "char \<Rightarrow> bool" where
  "is_letter c \<longleftrightarrow> (65 \<le> (of_char c :: nat) \<and> (of_char c :: nat) \<le> 90) \<or>
                 (97 \<le> (of_char c :: nat) \<and> (of_char c :: nat) \<le> 122)"

text \<open>The value of a digit in a radix up to 16, if it is one.\<close>

definition digit_val :: "char \<Rightarrow> nat option" where
  "digit_val c =
     (let n = (of_char c :: nat) in
      if 48 \<le> n \<and> n \<le> 57 then Some (n - 48)
      else if 97 \<le> n \<and> n \<le> 102 then Some (n - 87)
      else if 65 \<le> n \<and> n \<le> 70 then Some (n - 55)
      else None)"

definition is_radix_digit :: "nat \<Rightarrow> char \<Rightarrow> bool" where
  "is_radix_digit r c = (case digit_val c of None \<Rightarrow> False | Some d \<Rightarrow> d < r)"

definition radix_value :: "nat \<Rightarrow> string \<Rightarrow> int" where
  "radix_value r ds =
     foldl (\<lambda>acc c. acc * int r + (case digit_val c of None \<Rightarrow> 0 | Some d \<Rightarrow> int d)) 0 ds"

definition parse_digits :: "nat \<Rightarrow> string \<Rightarrow> string \<Rightarrow> error + int" where
  "parse_digits r ds s =
     (if ds \<noteq> [] \<and> list_all (is_radix_digit r) ds then Inr (radix_value r ds)
      else Inl (SyntaxError s))"

definition trim :: "string \<Rightarrow> string" where
  "trim s = rev (dropWhile is_space (rev (dropWhile is_space s)))"

definition radix_prefix :: "string \<Rightarrow> (nat \<times> string) option" where
  "radix_prefix t =
     (case t of
        c0 # c1 # ds \<Rightarrow>
          if c0 = CHR ''0'' then
            (if c1 = CHR ''x'' \<or> c1 = CHR ''X'' then Some (16, ds)
             else if c1 = CHR ''o'' \<or> c1 = CHR ''O'' then Some (8, ds)
             else if c1 = CHR ''b'' \<or> c1 = CHR ''B'' then Some (2, ds)
             else None)
          else None
      | _ \<Rightarrow> None)"

text \<open>\<^verbatim>\<open>BigInt(string)\<close>: white space around the literal is ignored, the empty
  literal is \<^verbatim>\<open>0n\<close>, a literal is a decimal with an optional sign or an unsigned
  hexadecimal, octal or binary with its prefix, and anything else throws a
  \<^verbatim>\<open>SyntaxError\<close>.\<close>

definition BigInt :: "string \<Rightarrow> error + int" where
  "BigInt s =
     (let t = trim s in
      if t = [] then Inr 0
      else case radix_prefix t of
        Some (r, ds) \<Rightarrow> parse_digits r ds s
      | None \<Rightarrow>
         (case t of
            c # ds \<Rightarrow>
              if c = CHR ''+'' then parse_digits 10 ds s
              else if c = CHR ''-'' then map_sum id uminus (parse_digits 10 ds s)
              else parse_digits 10 t s
          | [] \<Rightarrow> Inr 0))"

text \<open>\<^verbatim>\<open>String.prototype.toLowerCase\<close> on code units below 256.\<close>

definition lower_char :: "char \<Rightarrow> char" where
  "lower_char c =
     (let n = (of_char c :: nat) in
      if (65 \<le> n \<and> n \<le> 90) \<or> (192 \<le> n \<and> n \<le> 222 \<and> n \<noteq> 215)
      then char_of (n + 32) else c)"

definition toLowerCase :: "string \<Rightarrow> string" where
  "toLowerCase s = map lower_char s"

section \<open>Amount parsing: \<^verbatim>\<open>parseWeiAmount\<close>\<close>

definition remove_quotes_and_whitespace :: "string \<Rightarrow> string" where
  "remove_quotes_and_whitespace s = filter (\<lambda>c. \<not> is_quote_or_space c) s"

definition remove_commas :: "string \<Rightarrow> string" where
  "remove_commas s = filter (\<lambda>c. c \<noteq> CHR '','') s"

text \<open>The test \<^verbatim>\<open>/^\d+$/\<close>.\<close>

definition all_digits :: "string \<Rightarrow> bool" where
  "all_digits s \<longleftrightarrow> s \<noteq> [] \<and> list_all is_digit s"

definition parseWeiAmount :: "string \<Rightarrow> error + int" where
  "parseWeiAmount amountString =
     (let cleaned = remove_quotes_and_whitespace amountString;
          cleaned = remove_commas cleaned
      in if \<not> all_digits cleaned then Inl (InvalidAmountFormat amountString)
         else BigInt cleaned)"

subsection \<open>Decimal formatting\<close>

text \<open>The decimal rendering of a natural number (what \<^verbatim>\<open>toString\<close> gives for a
  non-negative \<^verbatim>\<open>bigint\<close>), and the same with a comma between groups of three
  digits counted from the right.\<close>

definition digit_char :: "nat \<Rightarrow> char" where
  "digit_char d = ''0123456789'' ! d"

fun decimal :: "nat \<Rightarrow> string" where
  "decimal n = (if n < 10 then [digit_char n] else decimal (n div 10) @ [digit_char (n mod 10)])"

declare decimal.simps [simp del]

fun group3 :: "string \<Rightarrow> string" where
  "group3 (a # b # c # d # rest) = a # b # c # CHR '','' # group3 (d # rest)"
| "group3 ds = ds"

definition decimal_with_separators :: "nat \<Rightarrow> string" where
  "decimal_with_separators n = rev (group3 (rev (decimal n)))"

section \<open>The external clients and the state of a run\<close>

text \<open>
  The token contract, the bulk-sender contract, the public client and
  \<^verbatim>\<open>Math.random\<close> are collaborators outside the scripts. Their behaviour is a
  parameter: each operation of a client takes the state of the outside world and
  returns either the error of a rejected promise or a value, and the next state of the
  world. \<^verbatim>\<open>Math.random\<close> is the sequence of its results: the \<open>k\<close>-th call
  returns the double \<open>m / 2^e\<close>, given as the pair \<open>(m, e)\<close>.
\<close>

datatype receipt_status = Success | Reverted

record receipt =
  status :: receipt_status
  blockNumber :: int

record 'w env =
  read_balanceOf :: "address \<Rightarrow> 'w \<Rightarrow> (error + int) \<times> 'w"
  read_allowance :: "address \<Rightarrow> address \<Rightarrow> 'w \<Rightarrow> (error + int) \<times> 'w"
  write_approve :: "address \<Rightarrow> int \<Rightarrow> 'w \<Rightarrow> (error + hash) \<times> 'w"
  waitForTransactionReceipt :: "hash \<Rightarrow> 'w \<Rightarrow> (error + receipt) \<times> 'w"
  simulate_bulkSendERC20Different ::
    "address \<Rightarrow> address list \<Rightarrow> int list \<Rightarrow> 'w \<Rightarrow> (error + unit) \<times> 'w"
  estimateGas_bulkSendERC20Different ::
    "address \<Rightarrow> address list \<Rightarrow> int list \<Rightarrow> 'w \<Rightarrow> (error + int) \<times> 'w"
  write_bulkSendERC20Different ::
    "address \<Rightarrow> address list \<Rightarrow> int list \<Rightarrow> int \<Rightarrow> 'w \<Rightarrow> (error + hash) \<times> 'w"
  Math_random :: "nat \<Rightarrow> nat \<times> nat"

text \<open>What a run does that can be observed: the calls it makes to the clients, and
  the lines it writes to the console that tell a batch, a failure or a warning.\<close>

datatype event =
    Call_balanceOf address
  | Call_allowance address address
  | Call_approve address int
  | Call_waitForTransactionReceipt hash
  | Call_simulate address "address list" "int list"
  | Call_estimateGas address "address list" "int list"
  | Call_write address "address list" "int list" int
  | Log_processing_batch nat nat
  | Log_batch_sent nat
  | Log_batch_completed nat hash
  | Error_batch_failed nat error
  | Warn_could_not_estimate_gas error

record 'w state =
  world :: 'w
  random_calls :: nat
  trace :: "event list"

text \<open>An asynchronous function of the scripts: from a state it either never returns
  (\<open>None\<close>), or throws an error, or returns a value, with the state it leaves.\<close>

type_synonym ('a, 'w) async = "'w state \<Rightarrow> ((error + 'a) \<times> 'w state) option"

definition return :: "'a \<Rightarrow> ('a, 'w) async" where
  "return x st = Some (Inr x, st)"

definition throw :: "error \<Rightarrow> ('a, 'w) async" where
  "throw e st = Some (Inl e, st)"

text \<open>\<^verbatim>\<open>const x = await m; f(x)\<close>: an error of \<open>m\<close> skips \<open>f\<close>.\<close>

definition await :: "('a, 'w) async \<Rightarrow> ('a \<Rightarrow> ('b, 'w) async) \<Rightarrow> ('b, 'w) async" where
  "await m f st =
     (case m st of
        None \<Rightarrow> None
      | Some (Inl e, st') \<Rightarrow> Some (Inl e, st')
      | Some (Inr x, st') \<Rightarrow> f x st')"

text \<open>\<^verbatim>\<open>try { m } catch (error) { h(error) }\<close>.\<close>

definition try_catch :: "('a, 'w) async \<Rightarrow> (error \<Rightarrow> ('a, 'w) async) \<Rightarrow> ('a, 'w) async" where
  "try_catch m h st =
     (case m st of
        None \<Rightarrow> None
      | Some (Inl e, st') \<Rightarrow> h e st'
      | Some (Inr x, st') \<Rightarrow> Some (Inr x, st'))"

definition emit :: "event \<Rightarrow> (unit, 'w) async" where
  "emit ev st = Some (Inr (), st\<lparr>trace := trace st @ [ev]\<rparr>)"

text \<open>A call to a client: the call is recorded, and the world moves on.\<close>

definition call :: "event \<Rightarrow> ('w \<Rightarrow> (error + 'a) \<times> 'w) \<Rightarrow> ('a, 'w) async" where
  "call ev op st =
     (let (r, w') = op (world st)
      in Some (r, st\<lparr>world := w', trace := trace st @ [ev]\<rparr>))"

section \<open>Balance and allowance guard (\<^verbatim>\<open>contractHelpers.ts\<close>)\<close>

definition waitForTransactionConfirmation :: "'w env \<Rightarrow> hash \<Rightarrow> (receipt, 'w) async" where
  "waitForTransactionConfirmation env h =
     await (call (Call_waitForTransactionReceipt h) (waitForTransactionReceipt env h))
       (\<lambda>receipt.
          if status receipt = Reverted then throw (TransactionReverted h)
          else return receipt)"

definition checkTokenBalance :: "'w env \<Rightarrow> address \<Rightarrow> int \<Rightarrow> (int, 'w) async" where
  "checkTokenBalance env signer requiredAmount =
     await (call (Call_balanceOf signer) (read_balanceOf env signer))
       (\<lambda>balance.
          if balance < requiredAmount
          then throw (InsufficientTokenBalance requiredAmount balance)
          else return balance)"

definition checkTokenAllowance ::
  "'w env \<Rightarrow> address \<Rightarrow> address \<Rightarrow> int \<Rightarrow> (int, 'w) async" where
  "checkTokenAllowance env signer spender requiredAmount =
     await (call (Call_allowance signer spender) (read_allowance env signer spender))
       (\<lambda>currentAllowance.
          if currentAllowance < requiredAmount then
            await (if currentAllowance > 0 then
                     await (call (Call_approve spender 0) (write_approve env spender 0))
                       (\<lambda>resetHash.
                          await (waitForTransactionConfirmation env resetHash)
                            (\<lambda>_. return ()))
                   else return ())
              (\<lambda>_.
                 await (call (Call_approve spender requiredAmount)
                          (write_approve env spender requiredAmount))
                   (\<lambda>approvalHash.
                      await (waitForTransactionConfirmation env approvalHash)
                        (\<lambda>_.
                           await (call (Call_allowance signer spender)
                                    (read_allowance env signer spender))
                             (\<lambda>newAllowance.
                                if newAllowance < requiredAmount
                                then throw (ApprovalFailed requiredAmount newAllowance)
                                else return currentAllowance))))
          else return currentAllowance)"

text \<open>The \<^verbatim>\<open>approve\<close> writes among the events of a trace, in order.\<close>

fun approve_writes :: "event list \<Rightarrow> (address \<times> int) list" where
  "approve_writes [] = []"
| "approve_writes (Call_approve spender amount # evs) = (spender, amount) # approve_writes evs"
| "approve_writes (_ # evs) = approve_writes evs"

section \<open>Gas helper (\<^verbatim>\<open>estimateGasCosts\<close>)\<close>

definition estimateGasCosts ::
  "'w env \<Rightarrow> address \<Rightarrow> address list \<Rightarrow> int list \<Rightarrow> (int option, 'w) async" where
  "estimateGasCosts env tokenAddress recipients amounts =
     try_catch
       (await (call (Call_estimateGas tokenAddress recipients amounts)
                 (estimateGas_bulkSendERC20Different env tokenAddress recipients amounts))
          (\<lambda>gasEstimate. return (Some gasEstimate)))
       (\<lambda>error. await (emit (Warn_could_not_estimate_gas error)) (\<lambda>_. return None))"

section \<open>Sampling (\<^verbatim>\<open>prepareVerificationData\<close>)\<close>

subsection \<open>Double-precision products\<close>

text \<open>
  The product of two doubles in IEEE 754 binary64 is the exact product rounded to 53
  significant bits, to nearest, ties to even. On a natural number \<open>p\<close>, which stands
  for the exact product scaled by a power of two:
\<close>

fun bit_length :: "nat \<Rightarrow> nat" where
  "bit_length n = (if n = 0 then 0 else Suc (bit_length (n div 2)))"

declare bit_length.simps [simp del]

definition round_to_53_bits :: "nat \<Rightarrow> nat" where
  "round_to_53_bits p =
     (let b = bit_length p in
      if b \<le> 53 then p
      else
        let s = b - 53;
            q = p div 2 ^ s;
            r = p mod 2 ^ s;
            half = 2 ^ (s - 1)
        in (if half < r \<or> (r = half \<and> odd q) then q + 1 else q) * 2 ^ s)"

text \<open>
  \<^verbatim>\<open>recipients.length * 0.1\<close>: the literal \<^verbatim>\<open>0.1\<close> is the double
  \<open>3602879701896397 / 2^55\<close>, and an array length is an integer below \<open>2^32\<close>, a
  double too.
\<close>

definition double_0_1 :: nat where
  "double_0_1 = 3602879701896397"

definition times_0_1 :: "nat \<Rightarrow> rat" where
  "times_0_1 n = of_nat (round_to_53_bits (n * double_0_1)) / 2 ^ 55"

text \<open>\<^verbatim>\<open>Math.max(1, Math.min(Math.ceil(recipients.length * 0.1), 10))\<close>.\<close>

definition samplesToCheck :: "nat \<Rightarrow> nat" where
  "samplesToCheck n = (let tenPercent = nat \<lceil>times_0_1 n\<rceil> in max 1 (min tenPercent 10))"

subsection \<open>Selecting the indexes\<close>

text \<open>A \<^verbatim>\<open>Set\<close> of numbers in insertion order: \<^verbatim>\<open>add\<close> of a member changes
  nothing, and \<^verbatim>\<open>size\<close> is the length.\<close>

definition set_add :: "nat list \<Rightarrow> nat \<Rightarrow> nat list" where
  "set_add s x = (if x \<in> set s then s else s @ [x])"

text \<open>
  A result of \<^verbatim>\<open>Math.random\<close> is a double at least 0 and below 1: such a double
  is \<open>m / 2^e\<close> with \<open>m < 2^53\<close> and \<open>53 \<le> e \<le> 1074\<close>.
\<close>

definition random_double :: "nat \<times> nat \<Rightarrow> bool" where
  "random_double x \<longleftrightarrow> fst x < 2 ^ 53 \<and> 53 \<le> snd x \<and> snd x \<le> 1074"

text \<open>\<^verbatim>\<open>Math.floor(x * n)\<close> for a result \<open>x\<close> of \<^verbatim>\<open>Math.random\<close> and an
  array length \<open>n\<close>: the floor of the rounded product.\<close>

definition random_index :: "nat \<times> nat \<Rightarrow> nat \<Rightarrow> nat" where
  "random_index x n = round_to_53_bits (fst x * n) div 2 ^ snd x"

text \<open>
  The \<^verbatim>\<open>while\<close> loop: \<open>k\<close> counts the calls of \<^verbatim>\<open>Math.random\<close> made so far.
  The loop ends only when enough distinct indexes have been drawn, so the function is
  partial.
\<close>

partial_function (option) select_loop ::
  "(nat \<Rightarrow> nat \<times> nat) \<Rightarrow> nat \<Rightarrow> nat \<Rightarrow> nat list \<Rightarrow> nat \<Rightarrow> (nat list \<times> nat) option" where
  "select_loop rnd n samples selectedIndexes k =
     (if length selectedIndexes < samples
      then (let randomIndex = random_index (rnd k) n
            in select_loop rnd n samples (set_add selectedIndexes randomIndex) (Suc k))
      else Some (selectedIndexes, k))"

declare select_loop.simps [code]

record VerificationEntry =
  address_ve :: address
  expectedAmount_ve :: int
  initialBalance :: int

text \<open>The \<^verbatim>\<open>for\<close> loop over the selected indexes. An index outside the array
  (only for an empty batch) reads \<^verbatim>\<open>undefined\<close>, which the client rejects as an
  address.\<close>

fun read_initial_balances ::
  "'w env \<Rightarrow> address list \<Rightarrow> int list \<Rightarrow> nat list \<Rightarrow> VerificationEntry list \<Rightarrow>
   (VerificationEntry list, 'w) async" where
  "read_initial_balances env recipients amounts [] verificationData = return verificationData"
| "read_initial_balances env recipients amounts (index # indexes) verificationData =
     (if index < length recipients \<and> index < length amounts then
        await (call (Call_balanceOf (recipients ! index))
                 (read_balanceOf env (recipients ! index)))
          (\<lambda>balance.
             read_initial_balances env recipients amounts indexes
               (verificationData @
                  [\<lparr>address_ve = recipients ! index, expectedAmount_ve = amounts ! index,
                    initialBalance = balance\<rparr>]))
      else throw (ClientError ''InvalidAddressError''))"

definition prepareVerificationData ::
  "'w env \<Rightarrow> address list \<Rightarrow> int list \<Rightarrow> (VerificationEntry list, 'w) async" where
  "prepareVerificationData env recipients amounts st =
     (case select_loop (Math_random env) (length recipients)
             (samplesToCheck (length recipients)) [] (random_calls st) of
        None \<Rightarrow> None
      | Some (selectedIndexes, k) \<Rightarrow>
          read_initial_balances env recipients amounts selectedIndexes []
            (st\<lparr>random_calls := k\<rparr>))"

section \<open>Batch driver (\<^verbatim>\<open>transferHelpers.ts\<close>)\<close>

record TransferData =
  address_td :: address
  amount :: int

fun verifyBatchTransfers_loop ::
  "'w env \<Rightarrow> VerificationEntry list \<Rightarrow> (unit, 'w) async" where
  "verifyBatchTransfers_loop env [] = return ()"
| "verifyBatchTransfers_loop env (entry # entries) =
     await (call (Call_balanceOf (address_ve entry)) (read_balanceOf env (address_ve entry)))
       (\<lambda>currentBalance.
          let actualIncrease = currentBalance - initialBalance entry
          in if actualIncrease = expectedAmount_ve entry
             then verifyBatchTransfers_loop env entries
             else throw (TransferVerificationFailed (address_ve entry)))"

definition verifyBatchTransfers ::
  "'w env \<Rightarrow> VerificationEntry list \<Rightarrow> nat \<Rightarrow> (unit, 'w) async" where
  "verifyBatchTransfers env verificationData batchNumber =
     verifyBatchTransfers_loop env verificationData"

text \<open>The submission of step 3 is commented out in the source: after gas estimation
  the function logs that the batch was sent and goes on to the verification.\<close>

definition processSingleBatch ::
  "'w env \<Rightarrow> address \<Rightarrow> TransferData list \<Rightarrow> nat \<Rightarrow> (unit, 'w) async" where
  "processSingleBatch env token batch batchNumber =
     await (emit (Log_processing_batch batchNumber (length batch)))
       (\<lambda>_.
          let recipients = map address_td batch;
              amounts = map amount batch
          in await (prepareVerificationData env recipients amounts)
               (\<lambda>verificationData.
                  try_catch
                    (await (call (Call_simulate token recipients amounts)
                              (simulate_bulkSendERC20Different env token recipients amounts))
                       (\<lambda>_.
                          await (call (Call_estimateGas token recipients amounts)
                                   (estimateGas_bulkSendERC20Different env token recipients
                                      amounts))
                            (\<lambda>gasEstimate.
                               await (emit (Log_batch_sent batchNumber))
                                 (\<lambda>_. verifyBatchTransfers env verificationData batchNumber))))
                    (\<lambda>error.
                       await (emit (Error_batch_failed batchNumber error))
                         (\<lambda>_. throw error))))"

fun processTransferBatches_loop ::
  "'w env \<Rightarrow> address \<Rightarrow> TransferData list list \<Rightarrow> nat \<Rightarrow> (unit, 'w) async" where
  "processTransferBatches_loop env token [] i = return ()"
| "processTransferBatches_loop env token (batch # batches) i =
     await (processSingleBatch env token batch (i + 1))
       (\<lambda>_. processTransferBatches_loop env token batches (i + 1))"

definition processTransferBatches ::
  "'w env \<Rightarrow> address \<Rightarrow> address \<Rightarrow> address \<Rightarrow> TransferData list list \<Rightarrow> (unit, 'w) async" where
  "processTransferBatches env token bulkSender signer batches =
     (let totalAmount = sum_list (map amount (concat batches))
      in await (checkTokenBalance env signer totalAmount)
           (\<lambda>_.
              await (checkTokenAllowance env signer bulkSender totalAmount)
                (\<lambda>_. processTransferBatches_loop env token batches 0)))"

section \<open>The second batch driver (\<^verbatim>\<open>src/unnamed/part_001\<close>)\<close>

text \<open>Division of \<^verbatim>\<open>bigint\<close> values truncates towards zero.\<close>

definition bigint_div :: "int \<Rightarrow> int \<Rightarrow> int" where
  "bigint_div a b = sgn a * sgn b * (\<bar>a\<bar> div \<bar>b\<bar>)"

text \<open>Its \<^verbatim>\<open>verifyBatchTransfers\<close> reads the balance of up to three recipients
  drawn at random and logs them.\<close>

fun verifyBatchTransfers_p1_loop ::
  "'w env \<Rightarrow> address list \<Rightarrow> nat \<Rightarrow> (unit, 'w) async" where
  "verifyBatchTransfers_p1_loop env recipients 0 = return ()"
| "verifyBatchTransfers_p1_loop env recipients (Suc j) =
     (\<lambda>st.
        let randomIndex = random_index (Math_random env (random_calls st)) (length recipients)
        in (if randomIndex < length recipients then
              await (call (Call_balanceOf (recipients ! randomIndex))
                       (read_balanceOf env (recipients ! randomIndex)))
                (\<lambda>balance. verifyBatchTransfers_p1_loop env recipients j)
            else throw (ClientError ''InvalidAddressError''))
             (st\<lparr>random_calls := Suc (random_calls st)\<rparr>))"

definition verifyBatchTransfers_p1 :: "'w env \<Rightarrow> address list \<Rightarrow> (unit, 'w) async" where
  "verifyBatchTransfers_p1 env recipients =
     verifyBatchTransfers_p1_loop env recipients (min 3 (length recipients))"

definition processSingleBatch_p1 ::
  "'w env \<Rightarrow> address \<Rightarrow> TransferData list \<Rightarrow> nat \<Rightarrow> (unit, 'w) async" where
  "processSingleBatch_p1 env token batch batchNumber =
     await (emit (Log_processing_batch batchNumber (length batch)))
       (\<lambda>_.
          let recipients = map address_td batch;
              amounts = map amount batch
          in try_catch
               (await (call (Call_simulate token recipients amounts)
                         (simulate_bulkSendERC20Different env token recipients amounts))
                  (\<lambda>_.
                     await (call (Call_estimateGas token recipients amounts)
                              (estimateGas_bulkSendERC20Different env token recipients amounts))
                       (\<lambda>gasEstimate.
                          let gas = gasEstimate + bigint_div gasEstimate 10
                          in await (call (Call_write token recipients amounts gas)
                                      (write_bulkSendERC20Different env token recipients
                                         amounts gas))
                               (\<lambda>hash.
                                  await (emit (Log_batch_completed batchNumber hash))
                                    (\<lambda>_. verifyBatchTransfers_p1 env recipients)))))
               (\<lambda>error.
                  await (emit (Error_batch_failed batchNumber error))
                    (\<lambda>_. throw error)))"



section \<open>Recipient loader of the reconciliation script (\<^verbatim>\<open>loadRecipients\<close>)\<close>

text \<open>
  The CSV parser is a library: the loader is modelled on the records it returns, each a
  list of trimmed fields. A record with fewer than two fields makes
  \<^verbatim>\<open>record[1].replace\<close> throw a \<^verbatim>\<open>TypeError\<close>.
\<close>

fun loadRecipients_loop :: "string list list \<Rightarrow> js_map \<Rightarrow> error + js_map" where
  "loadRecipients_loop [] recipientMap = Inr recipientMap"
| "loadRecipients_loop (record # records) recipientMap =
     (case record of
        addr # amountText # _ \<Rightarrow>
          (case BigInt (remove_commas amountText) of
             Inl e \<Rightarrow> Inl e
           | Inr parsed \<Rightarrow>
               loadRecipients_loop records (map_set recipientMap (toLowerCase addr) parsed))
      | _ \<Rightarrow> Inl TypeError)"

definition loadRecipients :: "string list list \<Rightarrow> error + js_map" where
  "loadRecipients records = loadRecipients_loop records []"

section \<open>Transfer list loader of the driver (\<^verbatim>\<open>validateAndParseRow\<close>, \<^verbatim>\<open>loadCSVData\<close>)\<close>

text \<open>The test \<^verbatim>\<open>/^0x[a-fA-F0-9]{40}$/\<close>.\<close>

definition is_address_format :: "string \<Rightarrow> bool" where
  "is_address_format s \<longleftrightarrow>
     (case s of
        c0 # c1 # ds \<Rightarrow> c0 = CHR ''0'' \<and> c1 = CHR ''x'' \<and> length ds = 40 \<and>
                         list_all (is_radix_digit 16) ds
      | _ \<Rightarrow> False)"

text \<open>A row is the array of its fields; a missing field is \<^verbatim>\<open>undefined\<close>, which
  like the empty string fails the first test.\<close>

definition validateAndParseRow :: "string list \<Rightarrow> nat \<Rightarrow> error + TransferData" where
  "validateAndParseRow row index =
     (let addr = (if 0 < length row then trim (row ! 0) else []);
          amountString = (if 1 < length row then trim (row ! 1) else [])
      in if addr = [] \<or> amountString = [] then Inl (InvalidRow (index + 1))
         else if \<not> is_address_format addr then Inl (InvalidAddressFormat (index + 1) addr)
         else case parseWeiAmount amountString of
                Inl e \<Rightarrow> Inl (InvalidAmount (index + 1) amountString e)
              | Inr parsed \<Rightarrow>
                  if parsed \<le> 0 then Inl (AmountNotPositive (index + 1) parsed)
                  else Inr \<lparr>address_td = addr, amount = parsed\<rparr>)"

fun loadCSVData_loop :: "string list list \<Rightarrow> nat \<Rightarrow> error + TransferData list" where
  "loadCSVData_loop [] index = Inr []"
| "loadCSVData_loop (row # rows) index =
     (case validateAndParseRow row index of
        Inl e \<Rightarrow> Inl e
      | Inr entry \<Rightarrow>
          (case loadCSVData_loop rows (index + 1) of
             Inl e \<Rightarrow> Inl e
           | Inr entries \<Rightarrow> Inr (entry # entries)))"

definition loadCSVData :: "string list list \<Rightarrow> error + TransferData list" where
  "loadCSVData rows = loadCSVData_loop rows 0"

section \<open>The contract entry point (\<^verbatim>\<open>bulkSendERC20Different\<close>)\<close>

text \<open>
  A revert undoes the call: the function returns either the reason of the revert or
  the state of the token after the call. Amounts are \<^verbatim>\<open>uint256\<close>: naturals with
  checked addition. An address is its lower-case hexadecimal text. The token is a
  parameter that makes no call back into the contract, so the \<^verbatim>\<open>nonReentrant\<close> lock
  never fires and is left out, as are the ether sent with the call and the event
  emitted at the end, which the token state does not record.
\<close>

datatype revert = Revert string | Panic_overflow

definition uint256_max :: nat where
  "uint256_max = 2 ^ 256 - 1"

definition zero_address :: address where
  "zero_address = ''0x0000000000000000000000000000000000000000''"

record contract_state =
  recipientLimit :: nat
  paused :: bool

text \<open>The token the contract calls, over a token state \<open>'l\<close>: the two views and the
  two transfers, each transfer made by a caller.\<close>

record 'l erc20 =
  token_allowance :: "'l \<Rightarrow> address \<Rightarrow> address \<Rightarrow> nat"
  token_balanceOf :: "'l \<Rightarrow> address \<Rightarrow> nat"
  token_transferFrom :: "address \<Rightarrow> address \<Rightarrow> address \<Rightarrow> nat \<Rightarrow> 'l \<Rightarrow> revert + 'l"
  token_transfer :: "address \<Rightarrow> address \<Rightarrow> nat \<Rightarrow> 'l \<Rightarrow> revert + 'l"

text \<open>The first loop: every amount is positive, and the total is their checked sum.\<close>

fun total_of_amounts :: "nat list \<Rightarrow> nat \<Rightarrow> revert + nat" where
  "total_of_amounts [] totalAmount = Inr totalAmount"
| "total_of_amounts (a # amounts) totalAmount =
     (if \<not> 0 < a then Inl (Revert ''BulkSender: Amount must be greater than 0'')
      else if uint256_max < totalAmount + a then Inl Panic_overflow
      else total_of_amounts amounts (totalAmount + a))"

definition validateERC20Transfer ::
  "'l erc20 \<Rightarrow> address \<Rightarrow> address \<Rightarrow> address \<Rightarrow> nat \<Rightarrow> 'l \<Rightarrow> revert option" where
  "validateERC20Transfer tok this token sender totalAmount l =
     (if token = zero_address then Some (Revert ''BulkSender: Invalid token address'')
      else if \<not> 0 < totalAmount
        then Some (Revert ''BulkSender: Total amount must be greater than 0'')
      else if \<not> totalAmount \<le> token_allowance tok l sender this
        then Some (Revert ''BulkSender: Insufficient allowance'')
      else if \<not> totalAmount \<le> token_balanceOf tok l sender
        then Some (Revert ''BulkSender: Insufficient balance'')
      else None)"

text \<open>The second loop: one \<^verbatim>\<open>safeTransfer\<close> for each index, in order.\<close>

fun distribute :: "'l erc20 \<Rightarrow> address \<Rightarrow> address list \<Rightarrow> nat list \<Rightarrow> 'l \<Rightarrow> revert + 'l" where
  "distribute tok this (r # recipients) (a # amounts) l =
     (if r = zero_address then Inl (Revert ''BulkSender: Invalid recipient'')
      else case token_transfer tok this r a l of
             Inl e \<Rightarrow> Inl e
           | Inr l' \<Rightarrow> distribute tok this recipients amounts l')"
| "distribute tok this recipients amounts l = Inr l"

definition bulkSendERC20Different ::
  "'l erc20 \<Rightarrow> contract_state \<Rightarrow> address \<Rightarrow> address \<Rightarrow> address \<Rightarrow> address list \<Rightarrow>
   nat list \<Rightarrow> 'l \<Rightarrow> revert + 'l" where
  "bulkSendERC20Different tok c this token sender recipients amounts l =
     (if paused c then Inl (Revert ''EnforcedPause'')
      else if \<not> 0 < length recipients then Inl (Revert ''BulkSender: Empty array'')
      else if \<not> length recipients \<le> recipientLimit c
        then Inl (Revert ''BulkSender: Exceeds recipient limit'')
      else if length recipients \<noteq> length amounts
        then Inl (Revert ''BulkSender: Array length mismatch'')
      else case total_of_amounts amounts 0 of
        Inl e \<Rightarrow> Inl e
      | Inr totalAmount \<Rightarrow>
          (case validateERC20Transfer tok this token sender totalAmount l of
             Some e \<Rightarrow> Inl e
           | None \<Rightarrow>
               (case token_transferFrom tok this sender this totalAmount l of
                  Inl e \<Rightarrow> Inl e
                | Inr l1 \<Rightarrow> distribute tok this recipients amounts l1)))"

subsection \<open>A standard token\<close>

text \<open>
  Modelled from the spec: the ERC20 token of the external interfaces (\<^verbatim>\<open>balanceOf\<close>,
  \<^verbatim>\<open>allowance\<close>, transfers that revert on failure), whose contract is not among the
  sources. Its state is the balances and the allowances; a transfer moves the amount
  from one balance to the other, and a transfer on behalf of an owner also spends the
  caller's allowance.
\<close>

record ledger =
  balances :: "address \<Rightarrow> nat"
  allowances :: "address \<Rightarrow> address \<Rightarrow> nat"

text \<open>Modelled from the spec: the movement of an amount between two balances, which
  reverts when the receiver is the zero address or the balance is too small.\<close>

definition move :: "address \<Rightarrow> address \<Rightarrow> nat \<Rightarrow> ledger \<Rightarrow> revert + ledger" where
  "move from to a l =
     (if to = zero_address then Inl (Revert ''ERC20InvalidReceiver'')
      else if balances l from < a then Inl (Revert ''ERC20InsufficientBalance'')
      else
        let b1 = (balances l)(from := balances l from - a);
            b2 = b1(to := b1 to + a)
        in Inr (l\<lparr>balances := b2\<rparr>))"

text \<open>Modelled from the spec: the token itself, as the four operations the contract
  uses.\<close>

definition standard_token :: "ledger erc20" where
  "standard_token =
     \<lparr>token_allowance = (\<lambda>l owner spender. allowances l owner spender),
      token_balanceOf = (\<lambda>l a. balances l a),
      token_transferFrom =
        (\<lambda>caller from to a l.
           if allowances l from caller < a then Inl (Revert ''ERC20InsufficientAllowance'')
           else move from to a
                  (l\<lparr>allowances :=
                       (allowances l)(from := (allowances l from)(caller :=
                          allowances l from caller - a))\<rparr>)),
      token_transfer = (\<lambda>caller to a l. move caller to a l)\<rparr>"

section \<open>Observations on traces\<close>

text \<open>The events a run of \<^const>\<open>processSingleBatch\<close> for batch number \<open>n\<close> can
  add to the trace: its console lines carry the number \<open>n\<close>, and its calls are balance
  reads, the simulation and the gas estimation.\<close>

fun driver_event :: "nat \<Rightarrow> event \<Rightarrow> bool" where
  "driver_event n (Call_balanceOf a) = True"
| "driver_event n (Call_simulate t rs as) = True"
| "driver_event n (Call_estimateGas t rs as) = True"
| "driver_event n (Log_processing_batch m k) = (m = n)"
| "driver_event n (Log_batch_sent m) = (m = n)"
| "driver_event n (Error_batch_failed m e) = (m = n)"
| "driver_event n _ = False"


text \<open>A submission of the bulk transfer.\<close>

fun is_submission :: "event \<Rightarrow> bool" where
  "is_submission (Call_write t rs as g) = True"
| "is_submission _ = False"


text \<open>An asynchronous function only adds events to the trace, all of a given kind.\<close>

definition appends :: "(event \<Rightarrow> bool) \<Rightarrow> ('a, 'w) async \<Rightarrow> bool" where
  "appends P m \<longleftrightarrow>
     (\<forall>st r st'. m st = Some (r, st') \<longrightarrow>
        (\<exists>new. trace st' = trace st @ new \<and> list_all P new))"


text \<open>The amount a record of the recipient file parses to, 0 when it does not parse.\<close>

definition parsed_amount :: "string list \<Rightarrow> int" where
  "parsed_amount r = (case BigInt (remove_commas (r ! 1)) of Inl e \<Rightarrow> 0 | Inr v \<Rightarrow> v)"

text \<open>The total of the amounts that the rows of a call send to one address.\<close>

definition sent_to :: "address \<Rightarrow> address list \<Rightarrow> nat list \<Rightarrow> nat" where
  "sent_to r recipients amounts =
     sum_list (map snd (filter (\<lambda>row. fst row = r) (zip recipients amounts)))"

section \<open>An example world\<close>

text \<open>
  A world to run the scripts in: it holds the allowance of the bulk sender and counts
  the balance reads. The signer holds 1000 tokens; the balance of any other address is
  5 more at each read, as if a transfer of 5 landed between two reads. An approval sets
  the allowance and every transaction is confirmed. Simulation rejects a batch that
  holds the recipient \<open>0xbad\<close>, gas estimation fails for a batch that holds the
  recipient \<open>0xnogas\<close>, and \<^verbatim>\<open>Math.random\<close> always returns 0.
\<close>

record example_world =
  allowance_w :: int
  reads_w :: nat

definition example_env :: "example_world env" where
  "example_env =
     \<lparr>read_balanceOf =
        (\<lambda>a w. if a = ''0xsigner'' then (Inr 1000, w)
               else (Inr (5 * int (reads_w w)), w\<lparr>reads_w := Suc (reads_w w)\<rparr>)),
      read_allowance = (\<lambda>owner spender w. (Inr (allowance_w w), w)),
      write_approve = (\<lambda>spender amount w. (Inr ''0xapprove'', w\<lparr>allowance_w := amount\<rparr>)),
      waitForTransactionReceipt = (\<lambda>h w. (Inr \<lparr>status = Success, blockNumber = 1\<rparr>, w)),
      simulate_bulkSendERC20Different =
        (\<lambda>token recipients amounts w.
           if ''0xbad'' \<in> set recipients then (Inl (ClientError ''execution reverted''), w)
           else (Inr (), w)),
      estimateGas_bulkSendERC20Different =
        (\<lambda>token recipients amounts w.
           if ''0xnogas'' \<in> set recipients then (Inl (ClientError ''gas estimation failed''), w)
           else (Inr 100000, w)),
      write_bulkSendERC20Different = (\<lambda>token recipients amounts gas w. (Inr ''0xbulk'', w)),
      Math_random = (\<lambda>k. (0, 53))\<rparr>"

definition example_state :: "int \<Rightarrow> example_world state" where
  "example_state a = \<lparr>world = \<lparr>allowance_w = a, reads_w = 0\<rparr>, random_calls = 0, trace = []\<rparr>"

section \<open>A world with a ledger\<close>






section \<open>Proofs: reconciliation and partitioning\<close>

lemma verifyTransfers_loop_map:
  "verifyTransfers_loop s e rs acc = acc @ map (verifyEntry s e) rs"
  by (induction rs arbitrary: acc) simp_all

lemma get_or_zero_default:
  "get_or_zero m k = (case map_get m k of None \<Rightarrow> 0 | Some v \<Rightarrow> v)"
  by (simp add: get_or_zero_def split: option.splits)

text \<open>
  Claim C1. For every start, end and expected-transfer map, \<^const>\<open>verifyTransfers\<close>
  yields one result per entry of the expected-transfer map, in its order. The result's
  balances are those of the two snapshots at its address, 0 where the address is
  absent; \<open>matches\<close> holds exactly when the end balance equals the start balance
  plus the expected amount; \<open>difference\<close> is the signed value end minus (start plus
  expected) when \<open>matches\<close> is false and is absent when it is true.
\<close>

theorem verifyTransfers_correct:
  "length (verifyTransfers s e rs) = length rs \<and>
   (\<forall>i < length rs.
      let r = verifyTransfers s e rs ! i;
          a = fst (rs ! i);
          x = snd (rs ! i);
          sb = (case map_get s a of None \<Rightarrow> 0 | Some v \<Rightarrow> v);
          eb = (case map_get e a of None \<Rightarrow> 0 | Some v \<Rightarrow> v)
      in address r = a \<and> expectedAmount r = x \<and> startBalance r = sb \<and> endBalance r = eb \<and>
         calculatedEnd r = sb + x \<and>
         (matches r \<longleftrightarrow> eb = sb + x) \<and>
         (\<not> matches r \<longrightarrow> difference r = Some (eb - (sb + x))) \<and>
         (matches r \<longrightarrow> difference r = None))"
  by (simp add: verifyTransfers_def verifyTransfers_loop_map verifyEntry_def Let_def
      get_or_zero_default)

theorem verifyTransfers_correct_witness:
  "(0::nat) < length [(''addr2'', 30::int)] \<and>
   \<not> matches (verifyTransfers [] [(''addr2'', 10)] [(''addr2'', 30)] ! 0) \<and>
   difference (verifyTransfers [] [(''addr2'', 10)] [(''addr2'', 30)] ! 0) = Some (- 20) \<and>
   matches (verifyTransfers [(''addr1'', 100)] [(''addr1'', 150)] [(''addr1'', 50)] ! 0) \<and>
   difference (verifyTransfers [(''addr1'', 100)] [(''addr1'', 150)] [(''addr1'', 50)] ! 0) = None"
  using verifyTransfers_correct [of "[]" "[(''addr2'', 10)]" "[(''addr2'', 30)]"]
    verifyTransfers_correct [of "[(''addr1'', 100)]" "[(''addr1'', 150)]" "[(''addr1'', 50)]"]
  by (simp add: Let_def map_get_def)

lemma slice_in_range:
  assumes "j < length arr" "0 < B"
  shows "slice arr (int j) (int j + int B) = take B (drop j arr)"
proof -
  have "nat (min (int j + int B) (int (length arr)) - int j) = min B (length arr - j)"
    using assms by (auto simp: min_def)
  then show ?thesis
    using assms by (simp add: slice_def Let_def min_def)
qed

lemma createBatches_loop_spec:
  assumes "0 < B"
  shows "\<exists>bs. createBatches_loop arr (int B) (int j) acc = Some (acc @ bs) \<and>
           concat bs = drop j arr \<and>
           (\<forall>b \<in> set bs. b \<noteq> []) \<and>
           (\<forall>k. Suc k < length bs \<longrightarrow> length (bs ! k) = B) \<and>
           (bs \<noteq> [] \<longrightarrow> length (last bs) =
              (if (length arr - j) mod B = 0 then B else (length arr - j) mod B))"
proof (induction "length arr - j" arbitrary: j acc rule: less_induct)
  case less
  show ?case
  proof (cases "j < length arr")
    case False
    then have "createBatches_loop arr (int B) (int j) acc = Some (acc @ [])"
      by (subst createBatches_loop.simps) simp
    moreover have "concat [] = drop j arr" using False by simp
    ultimately show ?thesis by fastforce
  next
    case True
    let ?b = "take B (drop j arr)"
    have lt: "length arr - (j + B) < length arr - j"
      using True assms by simp
    from less [OF lt, of "acc @ [?b]"]
    obtain bs where rec: "createBatches_loop arr (int B) (int (j + B)) (acc @ [?b]) = Some ((acc @ [?b]) @ bs)"
      and cat: "concat bs = drop (j + B) arr"
      and ne: "\<forall>b \<in> set bs. b \<noteq> []"
      and full: "\<forall>k. Suc k < length bs \<longrightarrow> length (bs ! k) = B"
      and lst: "bs \<noteq> [] \<longrightarrow> length (last bs) =
              (if (length arr - (j + B)) mod B = 0 then B else (length arr - (j + B)) mod B)"
      by blast
    have step: "createBatches_loop arr (int B) (int j) acc = Some (acc @ (?b # bs))"
      using True assms rec
      by (subst createBatches_loop.simps) (simp add: slice_in_range)
    have c1: "concat (?b # bs) = drop j arr"
      using cat by (simp add: add.commute) (metis append_take_drop_id drop_drop)
    have bne: "?b \<noteq> []" using True assms by simp
    have c2: "\<forall>b \<in> set (?b # bs). b \<noteq> []" using ne bne by simp
    have bs_ne: "bs \<noteq> [] \<Longrightarrow> j + B < length arr"
    proof (rule ccontr)
      assume "bs \<noteq> []" "\<not> j + B < length arr"
      then have "concat bs = []" using cat by simp
      with ne \<open>bs \<noteq> []\<close> show False by (cases bs) auto
    qed
    have c3: "\<forall>k. Suc k < length (?b # bs) \<longrightarrow> length ((?b # bs) ! k) = B"
    proof (intro allI impI)
      fix k assume k: "Suc k < length (?b # bs)"
      show "length ((?b # bs) ! k) = B"
      proof (cases k)
        case 0
        with k have "bs \<noteq> []" by auto
        from bs_ne [OF this] show ?thesis using 0 by simp
      next
        case (Suc k')
        with k full show ?thesis by simp
      qed
    qed
    have c4: "length (last (?b # bs)) =
              (if (length arr - j) mod B = 0 then B else (length arr - j) mod B)"
    proof (cases "bs = []")
      case True
      have "\<not> j + B < length arr"
      proof
        assume "j + B < length arr"
        then have "drop (j + B) arr \<noteq> []" by simp
        with cat True show False by simp
      qed
      then have le: "length arr - j \<le> B" by simp
      have pos: "0 < length arr - j" using \<open>j < length arr\<close> by simp
      have "length ?b = length arr - j" using le by simp
      moreover have "(if (length arr - j) mod B = 0 then B else (length arr - j) mod B) = length arr - j"
      proof (cases "length arr - j = B")
        case True then show ?thesis by simp
      next
        case False
        with le have "length arr - j < B" by simp
        with pos show ?thesis by simp
      qed
      ultimately show ?thesis using True by simp
    next
      case False
      from bs_ne [OF False] have "B \<le> length arr - j" by simp
      then have "(length arr - j) mod B = (length arr - (j + B)) mod B"
        by (metis diff_diff_left le_mod_geq)
      with lst False show ?thesis by simp
    qed
    from step c1 c2 c3 c4 show ?thesis by blast
  qed
qed

text \<open>
  Claim C2. For every array and every positive batch size, \<^const>\<open>createBatches\<close>
  returns, and the batches it returns concatenate to the array (same elements, same
  order, lengths summing to the array's length); every batch is non-empty, every batch
  but the last has length exactly the batch size, and the last has length
  \<open>len mod batchSize\<close>, or the batch size when that is 0.
\<close>

theorem createBatches_partition:
  assumes "0 < batchSize"
  shows "\<exists>batches. createBatches E batchSize = Some batches \<and>
           concat batches = E \<and>
           sum_list (map length batches) = length E \<and>
           (\<forall>b \<in> set batches. b \<noteq> []) \<and>
           (\<forall>k. Suc k < length batches \<longrightarrow> int (length (batches ! k)) = batchSize) \<and>
           (batches \<noteq> [] \<longrightarrow> int (length (last batches)) =
              (if int (length E) mod batchSize = 0 then batchSize
               else int (length E) mod batchSize))"
proof -
  define B where "B = nat batchSize"
  have B: "0 < B" "batchSize = int B" using assms by (simp_all add: B_def)
  from createBatches_loop_spec [OF B(1), of E 0 "[]"]
  obtain bs where run: "createBatches_loop E (int B) 0 [] = Some bs"
    and cat: "concat bs = E"
    and ne: "\<forall>b \<in> set bs. b \<noteq> []"
    and full: "\<forall>k. Suc k < length bs \<longrightarrow> length (bs ! k) = B"
    and lst: "bs \<noteq> [] \<longrightarrow> length (last bs) = (if length E mod B = 0 then B else length E mod B)"
    by auto
  have "sum_list (map length bs) = length (concat bs)"
    by (simp add: length_concat)
  then have tot: "sum_list (map length bs) = length E" using cat by simp
  have m: "int (length E) mod int B = int (length E mod B)"
    by (simp add: zmod_int)
  have lst': "bs \<noteq> [] \<longrightarrow> int (length (last bs)) =
              (if int (length E) mod int B = 0 then int B else int (length E) mod int B)"
    using lst unfolding m by auto
  show ?thesis
    unfolding createBatches_def B(2)
    using run cat tot ne full lst' by auto
qed

theorem createBatches_partition_witness:
  "(0::int) < 2 \<and> createBatches [10, 20, 30, 40, 50 :: nat] 2 = Some [[10, 20], [30, 40], [50]]"
proof -
  have h: "(0::int) < 2" by simp
  have run: "createBatches [10, 20, 30, 40, 50 :: nat] 2 = Some [[10, 20], [30, 40], [50]]"
    unfolding createBatches_def by (simp add: createBatches_loop.simps slice_def)
  from createBatches_partition [OF h, of "[10, 20, 30, 40, 50 :: nat]"] run h
  show ?thesis by simp
qed

lemma createBatches_loop_diverges:
  assumes "createBatches_loop arr batchSize i acc = Some y"
  shows "\<not> (batchSize \<le> 0 \<and> i \<le> 0 \<and> arr \<noteq> [])"
proof (rule createBatches_loop.raw_induct
    [where P = "\<lambda>arr batchSize i acc y. \<not> (batchSize \<le> 0 \<and> i \<le> 0 \<and> arr \<noteq> [])", OF _ assms])
  fix loop :: "'a list \<Rightarrow> int \<Rightarrow> int \<Rightarrow> 'a list list \<Rightarrow> 'a list list option"
    and array :: "'a list" and batchSize i :: int and batches y :: "'a list list"
  assume IH: "\<And>a b c d y. loop a b c d = Some y \<Longrightarrow> \<not> (b \<le> 0 \<and> c \<le> 0 \<and> a \<noteq> [])"
    and run: "(if i < int (length array)
               then loop array batchSize (i + batchSize)
                      (batches @ [slice array i (i + batchSize)])
               else Some batches) = Some y"
  show "\<not> (batchSize \<le> 0 \<and> i \<le> 0 \<and> array \<noteq> [])"
  proof
    assume a: "batchSize \<le> 0 \<and> i \<le> 0 \<and> array \<noteq> []"
    then have "i < int (length array)" by (cases array) auto
    with run have "loop array batchSize (i + batchSize)
             (batches @ [slice array i (i + batchSize)]) = Some y" by simp
    from IH [OF this] a show False by simp
  qed
qed

text \<open>
  Claim C10. With a batch size of at least 1 the loop of \<^const>\<open>createBatches\<close>
  ends for every array; with a batch size of 0 or less and a non-empty array it never
  ends.
\<close>

theorem createBatches_terminates_iff:
  "(1 \<le> batchSize \<longrightarrow> (\<exists>batches. createBatches array batchSize = Some batches)) \<and>
   (batchSize \<le> 0 \<and> array \<noteq> [] \<longrightarrow> createBatches array batchSize = None)"
proof (intro conjI impI)
  assume "1 \<le> batchSize"
  then have B: "0 < nat batchSize" "batchSize = int (nat batchSize)" by simp_all
  from createBatches_loop_spec [OF B(1), of array 0 "[]"] B(2)
  show "\<exists>batches. createBatches array batchSize = Some batches"
    unfolding createBatches_def by auto
next
  assume a: "batchSize \<le> 0 \<and> array \<noteq> []"
  show "createBatches array batchSize = None"
  proof (cases "createBatches array batchSize")
    case None then show ?thesis .
  next
    case (Some y)
    then have "createBatches_loop array batchSize 0 [] = Some y"
      by (simp add: createBatches_def)
    from createBatches_loop_diverges [OF this] a show ?thesis by simp
  qed
qed

theorem createBatches_terminates_iff_witness:
  "(1::int) \<le> 2 \<and> (\<exists>batches. createBatches [1, 2, 3 :: nat] 2 = Some batches) \<and>
   (0::int) \<le> 0 \<and> [1 :: nat] \<noteq> [] \<and> createBatches [1 :: nat] 0 = None"
  using createBatches_terminates_iff [of 2 "[1, 2, 3 :: nat]"]
    createBatches_terminates_iff [of 0 "[1 :: nat]"]
  by simp

section \<open>Proofs: amount parsing\<close>

lemma of_char_digit_char: "d < 10 \<Longrightarrow> (of_char (digit_char d) :: nat) = 48 + d"
proof -
  assume "d < 10"
  then have "d \<in> {0, 1, 2, 3, 4, 5, 6, 7, 8, 9}" by auto
  then show ?thesis by (auto simp: digit_char_def)
qed

lemma is_digit_digit_char: "d < 10 \<Longrightarrow> is_digit (digit_char d)"
  by (simp add: is_digit_def of_char_digit_char)

lemma digit_val_digit_char: "d < 10 \<Longrightarrow> digit_val (digit_char d) = Some d"
  by (simp add: digit_val_def of_char_digit_char)

lemma decimal_not_empty: "decimal n \<noteq> []"
  by (subst decimal.simps) simp

lemma decimal_digits: "list_all is_digit (decimal n)"
proof (induction n rule: decimal.induct)
  case (1 n)
  show ?case
  proof (cases "n < 10")
    case True
    then show ?thesis by (subst decimal.simps) (simp add: is_digit_digit_char)
  next
    case False
    with 1 show ?thesis by (subst decimal.simps) (simp add: is_digit_digit_char)
  qed
qed

lemma radix_value_snoc:
  "radix_value r (ds @ [c]) =
     radix_value r ds * int r + (case digit_val c of None \<Rightarrow> 0 | Some d \<Rightarrow> int d)"
  by (simp add: radix_value_def)

lemma radix_value_decimal: "radix_value 10 (decimal n) = int n"
proof (induction n rule: decimal.induct)
  case (1 n)
  show ?case
  proof (cases "n < 10")
    case True
    then show ?thesis
      by (subst decimal.simps) (simp add: radix_value_def digit_val_digit_char)
  next
    case False
    then have "radix_value 10 (decimal n) = int (n div 10) * 10 + int (n mod 10)"
      using 1 by (subst decimal.simps) (simp add: radix_value_snoc digit_val_digit_char)
    also have "\<dots> = int n" by (simp add: zdiv_int zmod_int)
    finally show ?thesis .
  qed
qed

lemma is_digit_not_stripped:
  assumes "is_digit c"
  shows "\<not> is_quote_or_space c" "c \<noteq> CHR '',''" "\<not> is_space c"
    "c \<noteq> CHR ''+''" "c \<noteq> CHR ''-''" "is_radix_digit 10 c"
    "c \<noteq> CHR ''x''" "c \<noteq> CHR ''X''" "c \<noteq> CHR ''o''" "c \<noteq> CHR ''O''"
    "c \<noteq> CHR ''b''" "c \<noteq> CHR ''B''"
  using assms
  by (auto simp: is_digit_def is_quote_or_space_def is_space_def is_radix_digit_def digit_val_def)

lemma trim_digits:
  assumes "list_all is_digit ds"
  shows "trim ds = ds"
proof (cases ds rule: rev_cases)
  case Nil
  then show ?thesis by (simp add: trim_def)
next
  case (snoc xs x)
  with assms have x: "\<not> is_space x" by (simp add: is_digit_not_stripped)
  have "dropWhile is_space ds = ds"
  proof (cases ds)
    case Nil then show ?thesis by simp
  next
    case (Cons y ys)
    with assms have "\<not> is_space y" by (simp add: is_digit_not_stripped)
    with Cons show ?thesis by simp
  qed
  then show ?thesis using snoc x by (simp add: trim_def)
qed

lemma radix_prefix_digits:
  assumes "list_all is_digit ds"
  shows "radix_prefix ds = None"
proof (cases ds)
  case Nil then show ?thesis by (simp add: radix_prefix_def)
next
  case (Cons c0 r)
  show ?thesis
  proof (cases r)
    case Nil with Cons show ?thesis by (simp add: radix_prefix_def)
  next
    case (Cons c1 r')
    with \<open>ds = c0 # r\<close> assms have "is_digit c1" by simp
    from is_digit_not_stripped(7-12) [OF this] Cons \<open>ds = c0 # r\<close>
    show ?thesis by (simp add: radix_prefix_def)
  qed
qed

lemma BigInt_digits:
  assumes "all_digits ds"
  shows "BigInt ds = Inr (radix_value 10 ds)"
proof -
  from assms have ne: "ds \<noteq> []" and dg: "list_all is_digit ds"
    by (simp_all add: all_digits_def)
  then obtain c r where ds: "ds = c # r" by (cases ds) auto
  with dg have c: "c \<noteq> CHR ''+''" "c \<noteq> CHR ''-''"
    by (simp_all add: is_digit_not_stripped)
  have rd: "list_all (is_radix_digit 10) ds"
    using dg by (induction ds) (simp_all add: is_digit_not_stripped)
  have "BigInt ds = (case ds of
            c # r \<Rightarrow>
              if c = CHR ''+'' then parse_digits 10 r ds
              else if c = CHR ''-'' then map_sum id uminus (parse_digits 10 r ds)
              else parse_digits 10 ds ds
          | [] \<Rightarrow> Inr 0)"
    using ne by (simp add: BigInt_def trim_digits [OF dg] radix_prefix_digits [OF dg] Let_def)
  also have "\<dots> = parse_digits 10 ds ds"
    using c by (simp add: ds)
  finally show ?thesis using ne rd by (simp add: parse_digits_def)
qed

lemma parseWeiAmount_cleaned:
  assumes "remove_commas (remove_quotes_and_whitespace s) = ds" "all_digits ds"
  shows "parseWeiAmount s = Inr (radix_value 10 ds)"
  using assms by (simp add: parseWeiAmount_def Let_def BigInt_digits)

lemma filter_digits:
  assumes "list_all is_digit ds"
  shows "remove_quotes_and_whitespace ds = ds" "remove_commas ds = ds"
  using assms
  by (induction ds) (simp_all add: remove_quotes_and_whitespace_def remove_commas_def is_digit_not_stripped)

lemma filter_stripped:
  assumes "list_all is_quote_or_space pre"
  shows "remove_quotes_and_whitespace pre = []"
  using assms by (induction pre) (simp_all add: remove_quotes_and_whitespace_def)

lemma remove_quotes_and_whitespace_append:
  "remove_quotes_and_whitespace (a @ b) = remove_quotes_and_whitespace a @ remove_quotes_and_whitespace b"
  by (simp add: remove_quotes_and_whitespace_def)

lemma comma_not_stripped: "\<not> is_quote_or_space (CHR '','')"
  by (simp add: is_quote_or_space_def is_space_def)

lemma group3_digits:
  "list_all is_digit ds \<Longrightarrow>
     remove_quotes_and_whitespace (group3 ds) = group3 ds \<and> remove_commas (group3 ds) = ds"
proof (induction ds rule: group3.induct)
  case (1 a b c d rest)
  then show ?case
    by (simp add: remove_quotes_and_whitespace_def remove_commas_def is_digit_not_stripped
        comma_not_stripped)
qed (simp_all add: filter_digits)

lemma separators_cleaned:
  "remove_commas (remove_quotes_and_whitespace (decimal_with_separators n)) = decimal n"
proof -
  have d: "list_all is_digit (rev (decimal n))" using decimal_digits [of n] by simp
  have "remove_quotes_and_whitespace (rev (group3 (rev (decimal n)))) =
        rev (remove_quotes_and_whitespace (group3 (rev (decimal n))))"
    by (simp add: remove_quotes_and_whitespace_def rev_filter)
  also have "\<dots> = rev (group3 (rev (decimal n)))" using group3_digits [OF d] by simp
  finally have "remove_commas (remove_quotes_and_whitespace (decimal_with_separators n)) =
        rev (remove_commas (group3 (rev (decimal n))))"
    by (simp add: decimal_with_separators_def remove_commas_def rev_filter)
  then show ?thesis using group3_digits [OF d] by simp
qed

lemma all_digits_decimal: "all_digits (decimal n)"
  by (simp add: all_digits_def decimal_not_empty decimal_digits)

lemma letter_not_digit:
  assumes "is_letter c \<or> c = CHR ''-'' \<or> c = CHR ''.''"
  shows "\<not> is_digit c"
  using assms by (auto simp: is_letter_def is_digit_def)

text \<open>
  Claim C7. For every natural number \<open>n\<close>, its decimal rendering, with or without
  commas between groups of three digits and with any quotes and white space before and
  after it, is parsed by \<^const>\<open>parseWeiAmount\<close> to \<open>n\<close>; and a string that still
  holds a letter, a minus sign or a decimal point once quotes, white space and commas
  are removed is rejected with the error carrying the raw string.
\<close>

theorem parseWeiAmount_roundtrip:
  "(list_all is_quote_or_space pre \<and> list_all is_quote_or_space post \<longrightarrow>
      parseWeiAmount (pre @ decimal n @ post) = Inr (int n) \<and>
      parseWeiAmount (pre @ decimal_with_separators n @ post) = Inr (int n)) \<and>
   ((\<exists>c \<in> set (remove_commas (remove_quotes_and_whitespace s)).
        is_letter c \<or> c = CHR ''-'' \<or> c = CHR ''.'') \<longrightarrow>
      parseWeiAmount s = Inl (InvalidAmountFormat s))"
proof (intro conjI impI)
  assume a: "list_all is_quote_or_space pre \<and> list_all is_quote_or_space post"
  have "remove_commas (remove_quotes_and_whitespace (pre @ decimal n @ post)) = decimal n"
    using a by (simp add: remove_quotes_and_whitespace_append filter_stripped
        filter_digits [OF decimal_digits])
  from parseWeiAmount_cleaned [OF this all_digits_decimal]
  show "parseWeiAmount (pre @ decimal n @ post) = Inr (int n)"
    by (simp add: radix_value_decimal)
  have "remove_quotes_and_whitespace (pre @ decimal_with_separators n @ post) =
        remove_quotes_and_whitespace (decimal_with_separators n)"
    using a by (simp add: remove_quotes_and_whitespace_append filter_stripped)
  then have "remove_commas (remove_quotes_and_whitespace (pre @ decimal_with_separators n @ post)) =
        decimal n"
    by (simp add: separators_cleaned)
  from parseWeiAmount_cleaned [OF this all_digits_decimal]
  show "parseWeiAmount (pre @ decimal_with_separators n @ post) = Inr (int n)"
    by (simp add: radix_value_decimal)
next
  assume "\<exists>c \<in> set (remove_commas (remove_quotes_and_whitespace s)).
        is_letter c \<or> c = CHR ''-'' \<or> c = CHR ''.''"
  then obtain c where c: "c \<in> set (remove_commas (remove_quotes_and_whitespace s))"
    and "is_letter c \<or> c = CHR ''-'' \<or> c = CHR ''.''" by blast
  then have "\<not> is_digit c" by (simp add: letter_not_digit)
  with c have "\<not> list_all is_digit (remove_commas (remove_quotes_and_whitespace s))"
    by (auto simp: list_all_iff)
  then show "parseWeiAmount s = Inl (InvalidAmountFormat s)"
    by (simp add: parseWeiAmount_def Let_def all_digits_def)
qed

theorem parseWeiAmount_roundtrip_witness:
  "list_all is_quote_or_space '' \"'' \<and> list_all is_quote_or_space ''\" '' \<and>
   parseWeiAmount ('' \"'' @ decimal_with_separators 1234567 @ ''\" '') = Inr 1234567 \<and>
   decimal_with_separators 1234567 = ''1,234,567'' \<and>
   (\<exists>c \<in> set (remove_commas (remove_quotes_and_whitespace ''1,5e3'')). is_letter c) \<and>
   parseWeiAmount ''1,5e3'' = Inl (InvalidAmountFormat ''1,5e3'')"
proof -
  have q: "list_all is_quote_or_space '' \"''" "list_all is_quote_or_space ''\" ''"
    by (simp_all add: is_quote_or_space_def is_space_def)
  have d: "decimal_with_separators 1234567 = ''1,234,567''"
    by (simp add: decimal_with_separators_def decimal.simps digit_char_def)
  have l: "\<exists>c \<in> set (remove_commas (remove_quotes_and_whitespace ''1,5e3'')). is_letter c"
    by (simp add: remove_commas_def remove_quotes_and_whitespace_def is_quote_or_space_def
        is_space_def is_letter_def)
  have "parseWeiAmount ('' \"'' @ decimal_with_separators 1234567 @ ''\" '') = Inr (int 1234567)"
    and r2: "parseWeiAmount ''1,5e3'' = Inl (InvalidAmountFormat ''1,5e3'')"
    using parseWeiAmount_roundtrip [of "'' \"''" "''\" ''" 1234567 "''1,5e3''"] q l
    by blast+
  then have r1: "parseWeiAmount ('' \"'' @ decimal_with_separators 1234567 @ ''\" '') = Inr 1234567"
    by (simp only: of_nat_numeral)
  show ?thesis
    by (intro conjI q d l r1 r2)
qed

section \<open>Proofs: allowance guard\<close>

lemmas async_defs = await_def call_def return_def throw_def emit_def try_catch_def

lemma approve_writes_append:
  "approve_writes (xs @ ys) = approve_writes xs @ approve_writes ys"
  by (induction xs rule: approve_writes.induct) simp_all

text \<open>
  Claim C5. Let \<open>A\<close> be the allowance read first and \<open>R\<close> the required amount.
  When \<open>R \<le> A\<close> the guard makes no write. When \<open>A = 0 < R\<close> and the write and its
  confirmation succeed, it makes exactly one \<^verbatim>\<open>approve\<close> write, of \<open>R\<close>, and waits
  for its receipt. When \<open>0 < A < R\<close> and the writes and their confirmations succeed, it
  makes exactly two: first \<^verbatim>\<open>approve(spender, 0)\<close>, awaited, then
  \<^verbatim>\<open>approve(spender, R)\<close>, awaited. After either write path it reads the allowance
  again and throws when the value read is below \<open>R\<close>. Whatever the clients answer, the
  \<^verbatim>\<open>approve\<close> writes made are an initial part of that sequence.
\<close>

theorem checkTokenAllowance_sequence:
  assumes first: "read_allowance env signer spender (world st) = (Inr A, w1)"
  shows
    "(R \<le> A \<longrightarrow>
        checkTokenAllowance env signer spender R st =
          Some (Inr A, st\<lparr>world := w1, trace := trace st @ [Call_allowance signer spender]\<rparr>)) \<and>
     (A = 0 \<and> 0 < R \<and>
      write_approve env spender R w1 = (Inr h, w2) \<and>
      waitForTransactionReceipt env h w2 = (Inr rc, w3) \<and> status rc \<noteq> Reverted \<and>
      read_allowance env signer spender w3 = (Inr A', w4) \<longrightarrow>
        checkTokenAllowance env signer spender R st =
          Some (if A' < R then Inl (ApprovalFailed R A') else Inr A,
                st\<lparr>world := w4,
                   trace := trace st @
                     [Call_allowance signer spender,
                      Call_approve spender R, Call_waitForTransactionReceipt h,
                      Call_allowance signer spender]\<rparr>)) \<and>
     (0 < A \<and> A < R \<and>
      write_approve env spender 0 w1 = (Inr h0, v1) \<and>
      waitForTransactionReceipt env h0 v1 = (Inr rc0, v2) \<and> status rc0 \<noteq> Reverted \<and>
      write_approve env spender R v2 = (Inr h, v3) \<and>
      waitForTransactionReceipt env h v3 = (Inr rc, v4) \<and> status rc \<noteq> Reverted \<and>
      read_allowance env signer spender v4 = (Inr A', v5) \<longrightarrow>
        checkTokenAllowance env signer spender R st =
          Some (if A' < R then Inl (ApprovalFailed R A') else Inr A,
                st\<lparr>world := v5,
                   trace := trace st @
                     [Call_allowance signer spender,
                      Call_approve spender 0, Call_waitForTransactionReceipt h0,
                      Call_approve spender R, Call_waitForTransactionReceipt h,
                      Call_allowance signer spender]\<rparr>)) \<and>
     (\<forall>r st'. checkTokenAllowance env signer spender R st = Some (r, st') \<longrightarrow>
        (\<exists>new. trace st' = trace st @ new \<and>
           prefix (approve_writes new)
             (if R \<le> A then []
              else if 0 < A then [(spender, 0), (spender, R)]
              else [(spender, R)])))"
proof (intro conjI impI allI)
  assume "R \<le> A"
  then show "checkTokenAllowance env signer spender R st =
          Some (Inr A, st\<lparr>world := w1, trace := trace st @ [Call_allowance signer spender]\<rparr>)"
    using first by (simp add: checkTokenAllowance_def async_defs)
next
  assume "A = 0 \<and> 0 < R \<and>
      write_approve env spender R w1 = (Inr h, w2) \<and>
      waitForTransactionReceipt env h w2 = (Inr rc, w3) \<and> status rc \<noteq> Reverted \<and>
      read_allowance env signer spender w3 = (Inr A', w4)"
  then show "checkTokenAllowance env signer spender R st =
          Some (if A' < R then Inl (ApprovalFailed R A') else Inr A,
                st\<lparr>world := w4,
                   trace := trace st @
                     [Call_allowance signer spender,
                      Call_approve spender R, Call_waitForTransactionReceipt h,
                      Call_allowance signer spender]\<rparr>)"
    using first
    by (simp add: checkTokenAllowance_def waitForTransactionConfirmation_def async_defs)
next
  assume "0 < A \<and> A < R \<and>
      write_approve env spender 0 w1 = (Inr h0, v1) \<and>
      waitForTransactionReceipt env h0 v1 = (Inr rc0, v2) \<and> status rc0 \<noteq> Reverted \<and>
      write_approve env spender R v2 = (Inr h, v3) \<and>
      waitForTransactionReceipt env h v3 = (Inr rc, v4) \<and> status rc \<noteq> Reverted \<and>
      read_allowance env signer spender v4 = (Inr A', v5)"
  then show "checkTokenAllowance env signer spender R st =
          Some (if A' < R then Inl (ApprovalFailed R A') else Inr A,
                st\<lparr>world := v5,
                   trace := trace st @
                     [Call_allowance signer spender,
                      Call_approve spender 0, Call_waitForTransactionReceipt h0,
                      Call_approve spender R, Call_waitForTransactionReceipt h,
                      Call_allowance signer spender]\<rparr>)"
    using first
    by (simp add: checkTokenAllowance_def waitForTransactionConfirmation_def async_defs)
next
  fix r st'
  assume run: "checkTokenAllowance env signer spender R st = Some (r, st')"
  show "\<exists>new. trace st' = trace st @ new \<and>
           prefix (approve_writes new)
             (if R \<le> A then []
              else if 0 < A then [(spender, 0), (spender, R)]
              else [(spender, R)])"
    using run first
    by (auto simp: checkTokenAllowance_def waitForTransactionConfirmation_def async_defs
        split: if_splits prod.splits sum.splits)
qed

theorem checkTokenAllowance_sequence_witness:
  "checkTokenAllowance example_env ''0xsigner'' ''0xsender'' 100 (example_state 40) =
     Some (Inr 40,
       \<lparr>world = \<lparr>allowance_w = 100, reads_w = 0\<rparr>, random_calls = 0,
        trace = [Call_allowance ''0xsigner'' ''0xsender'',
                 Call_approve ''0xsender'' 0, Call_waitForTransactionReceipt ''0xapprove'',
                 Call_approve ''0xsender'' 100, Call_waitForTransactionReceipt ''0xapprove'',
                 Call_allowance ''0xsigner'' ''0xsender'']\<rparr>) \<and>
   checkTokenAllowance example_env ''0xsigner'' ''0xsender'' 100 (example_state 0) =
     Some (Inr 0,
       \<lparr>world = \<lparr>allowance_w = 100, reads_w = 0\<rparr>, random_calls = 0,
        trace = [Call_allowance ''0xsigner'' ''0xsender'',
                 Call_approve ''0xsender'' 100, Call_waitForTransactionReceipt ''0xapprove'',
                 Call_allowance ''0xsigner'' ''0xsender'']\<rparr>) \<and>
   checkTokenAllowance example_env ''0xsigner'' ''0xsender'' 100 (example_state 100) =
     Some (Inr 100,
       \<lparr>world = \<lparr>allowance_w = 100, reads_w = 0\<rparr>, random_calls = 0,
        trace = [Call_allowance ''0xsigner'' ''0xsender'']\<rparr>)"
proof -
  have two: "checkTokenAllowance example_env ''0xsigner'' ''0xsender'' 100 (example_state 40) =
     Some (Inr 40,
       \<lparr>world = \<lparr>allowance_w = 100, reads_w = 0\<rparr>, random_calls = 0,
        trace = [Call_allowance ''0xsigner'' ''0xsender'',
                 Call_approve ''0xsender'' 0, Call_waitForTransactionReceipt ''0xapprove'',
                 Call_approve ''0xsender'' 100, Call_waitForTransactionReceipt ''0xapprove'',
                 Call_allowance ''0xsigner'' ''0xsender'']\<rparr>)"
    using checkTokenAllowance_sequence
      [where env = example_env and signer = "''0xsigner''" and spender = "''0xsender''"
         and st = "example_state 40" and A = 40 and R = 100
         and ?w1.0 = "\<lparr>allowance_w = 40, reads_w = 0\<rparr>"
         and ?h0.0 = "''0xapprove''" and ?v1.0 = "\<lparr>allowance_w = 0, reads_w = 0\<rparr>"
         and ?rc0.0 = "\<lparr>status = Success, blockNumber = 1\<rparr>"
         and ?v2.0 = "\<lparr>allowance_w = 0, reads_w = 0\<rparr>"
         and h = "''0xapprove''" and ?v3.0 = "\<lparr>allowance_w = 100, reads_w = 0\<rparr>"
         and rc = "\<lparr>status = Success, blockNumber = 1\<rparr>"
         and ?v4.0 = "\<lparr>allowance_w = 100, reads_w = 0\<rparr>"
         and A' = 100 and ?v5.0 = "\<lparr>allowance_w = 100, reads_w = 0\<rparr>"]
    by (simp add: example_env_def example_state_def)
  have one: "checkTokenAllowance example_env ''0xsigner'' ''0xsender'' 100 (example_state 0) =
     Some (Inr 0,
       \<lparr>world = \<lparr>allowance_w = 100, reads_w = 0\<rparr>, random_calls = 0,
        trace = [Call_allowance ''0xsigner'' ''0xsender'',
                 Call_approve ''0xsender'' 100, Call_waitForTransactionReceipt ''0xapprove'',
                 Call_allowance ''0xsigner'' ''0xsender'']\<rparr>)"
    using checkTokenAllowance_sequence
      [where env = example_env and signer = "''0xsigner''" and spender = "''0xsender''"
         and st = "example_state 0" and A = 0 and R = 100
         and ?w1.0 = "\<lparr>allowance_w = 0, reads_w = 0\<rparr>"
         and h = "''0xapprove''" and ?w2.0 = "\<lparr>allowance_w = 100, reads_w = 0\<rparr>"
         and rc = "\<lparr>status = Success, blockNumber = 1\<rparr>"
         and ?w3.0 = "\<lparr>allowance_w = 100, reads_w = 0\<rparr>"
         and A' = 100 and ?w4.0 = "\<lparr>allowance_w = 100, reads_w = 0\<rparr>"]
    by (simp add: example_env_def example_state_def)
  have none: "checkTokenAllowance example_env ''0xsigner'' ''0xsender'' 100 (example_state 100) =
     Some (Inr 100,
       \<lparr>world = \<lparr>allowance_w = 100, reads_w = 0\<rparr>, random_calls = 0,
        trace = [Call_allowance ''0xsigner'' ''0xsender'']\<rparr>)"
    using checkTokenAllowance_sequence
      [where env = example_env and signer = "''0xsigner''" and spender = "''0xsender''"
         and st = "example_state 100" and A = 100 and R = 100
         and ?w1.0 = "\<lparr>allowance_w = 100, reads_w = 0\<rparr>"]
    by (simp add: example_env_def example_state_def)
  from two one none show ?thesis by (intro conjI)
qed

section \<open>Proofs: sampling\<close>

lemma bit_length_upper: "n < 2 ^ bit_length n"
proof (induction n rule: bit_length.induct)
  case (1 n)
  show ?case
  proof (cases "n = 0")
    case True then show ?thesis by (subst bit_length.simps) simp
  next
    case False
    with 1 have "n div 2 < 2 ^ bit_length (n div 2)" by simp
    then have "n < 2 * 2 ^ bit_length (n div 2)" by linarith
    with False show ?thesis by (subst bit_length.simps) simp
  qed
qed

lemma bit_length_lower: "0 < n \<Longrightarrow> 2 ^ (bit_length n - 1) \<le> n"
proof (induction n rule: bit_length.induct)
  case (1 n)
  show ?case
  proof (cases "n div 2 = 0")
    case True
    with 1(2) have "n = 1" by linarith
    then show ?thesis by (simp add: bit_length.simps)
  next
    case False
    then have pos: "0 < n div 2" by simp
    with 1 have ih: "2 ^ (bit_length (n div 2) - 1) \<le> n div 2" by simp
    have "0 < bit_length (n div 2)" using pos by (subst bit_length.simps) simp
    then have "bit_length n - 1 = Suc (bit_length (n div 2) - 1)"
      using 1(2) by (subst bit_length.simps) simp
    then have "(2::nat) ^ (bit_length n - 1) = 2 * 2 ^ (bit_length (n div 2) - 1)" by simp
    also have "\<dots> \<le> 2 * (n div 2)" using ih by simp
    also have "\<dots> \<le> n" by simp
    finally show ?thesis .
  qed
qed

lemma round_to_53_bits_bounds:
  "round_to_53_bits p * 2 ^ 52 + p \<ge> p * 2 ^ 52 \<and>
   round_to_53_bits p * 2 ^ 52 \<le> p * 2 ^ 52 + p"
proof (cases "bit_length p \<le> 53")
  case True
  then show ?thesis by (simp add: round_to_53_bits_def)
next
  case False
  define s where "s = bit_length p - 53"
  define q where "q = p div 2 ^ s"
  define r where "r = p mod 2 ^ s"
  have s: "bit_length p - 1 = s + 52" using False by (simp add: s_def)
  have "0 < p" using False by (cases "p = 0") (simp_all add: bit_length.simps)
  from bit_length_lower [OF this] have "2 ^ (s + 52) \<le> p" unfolding s .
  then have big: "2 ^ s * 2 ^ 52 \<le> p" by (simp add: power_add)
  have p: "p = q * 2 ^ s + r" unfolding q_def r_def by (rule div_mult_mod_eq [symmetric])
  have r: "r < 2 ^ s" by (simp add: r_def)
  have qp: "q * 2 ^ s \<le> p" using p by linarith
  have pq: "p \<le> (q + 1) * 2 ^ s" using p r by (simp add: algebra_simps)
  have R: "round_to_53_bits p = q * 2 ^ s \<or> round_to_53_bits p = (q + 1) * 2 ^ s"
    using False by (simp add: round_to_53_bits_def Let_def s_def q_def r_def)
  then show ?thesis
  proof
    assume e: "round_to_53_bits p = q * 2 ^ s"
    have "p * 2 ^ 52 \<le> (q + 1) * 2 ^ s * 2 ^ 52" using pq by simp
    also have "\<dots> = q * 2 ^ s * 2 ^ 52 + 2 ^ s * 2 ^ 52" by (simp add: algebra_simps)
    also have "\<dots> \<le> q * 2 ^ s * 2 ^ 52 + p" using big by simp
    finally have 1: "p * 2 ^ 52 \<le> round_to_53_bits p * 2 ^ 52 + p" by (simp add: e)
    have "q * 2 ^ s * 2 ^ 52 \<le> p * 2 ^ 52" using qp by simp
    then have 2: "round_to_53_bits p * 2 ^ 52 \<le> p * 2 ^ 52 + p" by (simp add: e)
    from 1 2 show ?thesis by simp
  next
    assume e: "round_to_53_bits p = (q + 1) * 2 ^ s"
    have "p * 2 ^ 52 \<le> (q + 1) * 2 ^ s * 2 ^ 52" using pq by simp
    then have 1: "p * 2 ^ 52 \<le> round_to_53_bits p * 2 ^ 52 + p" by (simp add: e)
    have "(q + 1) * 2 ^ s * 2 ^ 52 = q * 2 ^ s * 2 ^ 52 + 2 ^ s * 2 ^ 52" by (simp add: algebra_simps)
    also have "\<dots> \<le> q * 2 ^ s * 2 ^ 52 + p" using big by simp
    also have "\<dots> \<le> p * 2 ^ 52 + p" using qp by simp
    finally have 2: "round_to_53_bits p * 2 ^ 52 \<le> p * 2 ^ 52 + p" by (simp add: e)
    from 1 2 show ?thesis by simp
  qed
qed

lemma ceiling_scaled:
  assumes "k * 2 ^ 55 < R" "R \<le> (k + 1) * 2 ^ 55"
  shows "nat \<lceil>(of_nat R :: rat) / 2 ^ 55\<rceil> = k + 1"
proof -
  have pos: "(0::rat) < 2 ^ 55" by simp
  have "(of_nat (k * 2 ^ 55) :: rat) < of_nat R" using assms(1) by (simp only: of_nat_less_iff)
  then have 1: "(of_int (int k) :: rat) < of_nat R / 2 ^ 55"
    using pos by (simp add: pos_less_divide_eq)
  have "(of_nat R :: rat) \<le> of_nat ((k + 1) * 2 ^ 55)" using assms(2) by (simp only: of_nat_le_iff)
  then have 2: "(of_nat R :: rat) / 2 ^ 55 \<le> of_int (int k) + 1"
    using pos by (simp add: pos_divide_le_eq)
  from 1 2 have "\<lceil>(of_nat R :: rat) / 2 ^ 55\<rceil> = int k + 1"
    by (intro ceiling_unique) simp_all
  then show ?thesis by simp
qed

lemma ceiling_exact:
  "nat \<lceil>(of_nat (k * 2 ^ 55) :: rat) / 2 ^ 55\<rceil> = k"
  by simp

lemma round_multiples_of_ten_numerals:
  "round_to_53_bits (10 * 0 * double_0_1) = 0 * 2 ^ 55"
  "round_to_53_bits (10 * 1 * double_0_1) = 1 * 2 ^ 55"
  "round_to_53_bits (10 * 2 * double_0_1) = 2 * 2 ^ 55"
  "round_to_53_bits (10 * 3 * double_0_1) = 3 * 2 ^ 55"
  "round_to_53_bits (10 * 4 * double_0_1) = 4 * 2 ^ 55"
  "round_to_53_bits (10 * 5 * double_0_1) = 5 * 2 ^ 55"
  "round_to_53_bits (10 * 6 * double_0_1) = 6 * 2 ^ 55"
  "round_to_53_bits (10 * 7 * double_0_1) = 7 * 2 ^ 55"
  "round_to_53_bits (10 * 8 * double_0_1) = 8 * 2 ^ 55"
  "round_to_53_bits (10 * 9 * double_0_1) = 9 * 2 ^ 55"
  "round_to_53_bits (10 * 10 * double_0_1) = 10 * 2 ^ 55"
  by (simp_all add: round_to_53_bits_def double_0_1_def bit_length.simps Let_def)

lemma round_multiples_of_ten:
  assumes "k \<le> 10"
  shows "round_to_53_bits (10 * k * double_0_1) = k * 2 ^ 55"
proof -
  from assms have "k = 0 \<or> k = 1 \<or> k = 2 \<or> k = 3 \<or> k = 4 \<or> k = 5 \<or> k = 6 \<or> k = 7 \<or>
      k = 8 \<or> k = 9 \<or> k = 10" by presburger
  then have "k \<in> {0, 1, 2, 3, 4, 5, 6, 7, 8, 9, 10}" by blast
  then show ?thesis
    using round_multiples_of_ten_numerals by (elim insertE emptyE) (simp_all only:)
qed

lemma power_2_numerals:
  "(2::nat) ^ 52 = 4503599627370496" "(2::nat) ^ 55 = 36028797018963968"
  by simp_all

lemma tenPercent_large:
  assumes "101 \<le> n"
  shows "11 \<le> nat \<lceil>times_0_1 n\<rceil>"
proof -
  define p where "p = n * double_0_1"
  define R where "R = round_to_53_bits p"
  have p: "363890849891536097 \<le> p" using assms by (simp add: p_def double_0_1_def)
  have b: "p * 4503599627370496 \<le> R * 4503599627370496 + p"
    using round_to_53_bits_bounds [of p] unfolding R_def power_2_numerals by simp
  have "360287970189639680 < R" using p b by linarith
  then have "10 * 2 ^ 55 < R" unfolding power_2_numerals by simp
  then have "(of_nat (10 * 2 ^ 55) :: rat) < of_nat R" by (simp only: of_nat_less_iff)
  then have "(10 :: rat) < of_nat R / 2 ^ 55" by (simp add: pos_less_divide_eq)
  then have "10 < \<lceil>(of_nat R :: rat) / 2 ^ 55\<rceil>" by (simp add: less_ceiling_iff)
  then have "11 \<le> nat \<lceil>(of_nat R :: rat) / 2 ^ 55\<rceil>" by linarith
  then show ?thesis unfolding times_0_1_def R_def p_def .
qed

lemma tenPercent_small:
  assumes "n \<le> 100" "n mod 10 \<noteq> 0"
  shows "nat \<lceil>times_0_1 n\<rceil> = n div 10 + 1"
proof -
  define k where "k = n div 10"
  define f where "f = n mod 10"
  define p where "p = n * double_0_1"
  define R where "R = round_to_53_bits p"
  have n: "n = 10 * k + f" by (simp add: k_def f_def)
  have f: "1 \<le> f" "f \<le> 9" using assms(2) by (simp_all add: f_def)
  have k: "k \<le> 10" using assms(1) by (simp add: k_def)
  have p: "p = 36028797018963970 * k + 3602879701896397 * f"
    by (simp add: p_def n double_0_1_def algebra_simps)
  have b: "p * 4503599627370496 \<le> R * 4503599627370496 + p"
    "R * 4503599627370496 \<le> p * 4503599627370496 + p"
    using round_to_53_bits_bounds [of p] unfolding R_def power_2_numerals by simp_all
  have "k * 36028797018963968 < R" using p f k b(1) by linarith
  then have lo: "k * 2 ^ 55 < R" unfolding power_2_numerals .
  have "R \<le> k * 36028797018963968 + 36028797018963968" using p f k b(2) by linarith
  then have hi: "R \<le> (k + 1) * 2 ^ 55" unfolding power_2_numerals by simp
  from ceiling_scaled [OF lo hi] show ?thesis
    unfolding times_0_1_def R_def p_def k_def .
qed

lemma tenPercent_multiple:
  assumes "n \<le> 100" "n mod 10 = 0"
  shows "nat \<lceil>times_0_1 n\<rceil> = n div 10"
proof -
  from assms have k: "n div 10 \<le> 10" and n: "n = 10 * (n div 10)" by auto
  have "round_to_53_bits (n * double_0_1) = (n div 10) * 2 ^ 55"
    using round_multiples_of_ten [OF k] n by simp
  then have "times_0_1 n = of_nat ((n div 10) * 2 ^ 55) / 2 ^ 55"
    by (simp only: times_0_1_def)
  then show ?thesis
    using ceiling_exact [of "n div 10"] by (simp only:)
qed

lemma div10_up_small: "(f::nat) < 10 \<Longrightarrow> (f + 9) div 10 = (if f = 0 then 0 else 1)"
proof (cases "f = 0")
  case True then show ?thesis by simp
next
  case False
  assume "f < 10"
  with False have "(f + 9) div 10 = 1"
    by (intro div_nat_eqI) simp_all
  with False show ?thesis by simp
qed

lemma div10_up: "((n::nat) + 9) div 10 = n div 10 + (if n mod 10 = 0 then 0 else 1)"
proof -
  have "(n + 9) div 10 = (n mod 10 + 9 + 10 * (n div 10)) div 10" by simp
  also have "\<dots> = n div 10 + (n mod 10 + 9) div 10" by (simp only: div_mult_self2)
  also have "(n mod 10 + 9) div 10 = (if n mod 10 = 0 then 0 else 1)"
    by (rule div10_up_small) simp
  finally show ?thesis .
qed

lemma ceiling_tenth: "nat \<lceil>(of_nat n :: rat) / 10\<rceil> = (n + 9) div 10"
proof (cases "n mod 10 = 0")
  case True
  then obtain k where n: "n = 10 * k" by auto
  have "(of_nat n :: rat) / 10 = of_nat k" by (simp add: n)
  then have "nat \<lceil>(of_nat n :: rat) / 10\<rceil> = k" by simp
  then show ?thesis using True by (simp add: div10_up n)
next
  case False
  define k where "k = n div 10"
  define f where "f = n mod 10"
  have n: "n = 10 * k + f" and f: "0 < f" "f < 10" using False by (simp_all add: k_def f_def)
  have 1: "(of_int (int k) :: rat) < of_nat n / 10"
    using f by (simp add: n pos_less_divide_eq)
  have 2: "(of_nat n :: rat) / 10 \<le> of_int (int k) + 1"
  proof -
    have "(of_nat f :: rat) \<le> 10" using f by simp
    then show ?thesis by (simp add: n pos_divide_le_eq algebra_simps)
  qed
  from 1 2 have "\<lceil>(of_nat n :: rat) / 10\<rceil> = int k + 1" by (intro ceiling_unique) simp_all
  then show ?thesis using False by (simp add: div10_up k_def)
qed

lemma samplesToCheck_eq: "samplesToCheck n = max 1 (min ((n + 9) div 10) 10)"
proof -
  consider "101 \<le> n" | "n \<le> 100" "n mod 10 \<noteq> 0" | "n \<le> 100" "n mod 10 = 0" by linarith
  then show ?thesis
  proof cases
    case 1
    from tenPercent_large [OF 1] 1 show ?thesis
      by (simp add: samplesToCheck_def Let_def)
  next
    case 2
    have "n div 10 + 1 = (n + 9) div 10" using 2(2) by (simp add: div10_up)
    with tenPercent_small [OF 2] show ?thesis
      by (simp add: samplesToCheck_def Let_def)
  next
    case 3
    have "n div 10 = (n + 9) div 10" using 3(2) by (simp add: div10_up)
    with tenPercent_multiple [OF 3] show ?thesis
      by (simp add: samplesToCheck_def Let_def)
  qed
qed

lemma samplesToCheck_le: "1 \<le> n \<Longrightarrow> samplesToCheck n \<le> n"
  by (simp add: samplesToCheck_eq)

lemma bit_length_le:
  assumes "p < 2 ^ k"
  shows "bit_length p \<le> k"
proof (cases "p = 0")
  case True then show ?thesis by (simp add: bit_length.simps)
next
  case False
  then have "0 < p" by simp
  from bit_length_lower [OF this] have "2 ^ (bit_length p - 1) \<le> p" .
  from this assms have "(2::nat) ^ (bit_length p - 1) < 2 ^ k" by (rule le_less_trans)
  then have "bit_length p - 1 < k" by (rule power_less_imp_less_exp [rotated]) simp
  then show ?thesis by simp
qed

lemma round_below_bound:
  assumes m: "m < 2 ^ 53" and e: "53 \<le> e" and n: "0 < n" "n < 2 ^ 53"
  shows "round_to_53_bits (m * n) < n * 2 ^ e"
proof -
  define p where "p = m * n"
  define b where "b = bit_length p"
  have "(2::nat) ^ 53 \<le> 2 ^ e" using e by (intro power_increasing) simp_all
  then have pe: "n * 2 ^ 53 \<le> n * 2 ^ e" by (rule mult_le_mono2)
  have pn: "p + n \<le> n * 2 ^ 53"
  proof -
    from m have "m + 1 \<le> 2 ^ 53" by simp
    then have "(m + 1) * n \<le> 2 ^ 53 * n" by (rule mult_le_mono1)
    then show ?thesis by (simp add: p_def algebra_simps)
  qed
  show ?thesis
  proof (cases "b \<le> 53")
    case True
    then have "round_to_53_bits p = p" by (simp add: round_to_53_bits_def b_def)
    with pn n pe show ?thesis unfolding p_def by linarith
  next
    case False
    define s where "s = b - 53"
    define q where "q = p div 2 ^ s"
    define r where "r = p mod 2 ^ s"
    define half :: nat where "half = 2 ^ (s - 1)"
    have s1: "1 \<le> s" using False by (simp add: s_def)
    have two_half: "(2::nat) ^ s = 2 * half"
      using s1 unfolding half_def by (cases s) simp_all
    have pos: "0 < p" using False by (cases "p = 0") (simp_all add: bit_length.simps b_def)
    have lower: "2 ^ (s + 52) \<le> p"
    proof -
      have "b - 1 = s + 52" using False by (simp add: s_def)
      with bit_length_lower [OF pos] show ?thesis by (simp add: b_def)
    qed
    have pq: "p = q * 2 ^ s + r" unfolding q_def r_def by (rule div_mult_mod_eq [symmetric])
    have R: "round_to_53_bits p =
               (if half < r \<or> (r = half \<and> odd q) then q + 1 else q) * 2 ^ s"
      using False by (simp add: round_to_53_bits_def Let_def b_def s_def q_def r_def half_def)
    have half_lt: "half < n"
    proof (rule ccontr)
      assume "\<not> half < n"
      then have "n \<le> 2 ^ (s - 1)" by (simp add: half_def)
      then have "n * 2 ^ 53 \<le> 2 ^ (s - 1) * 2 ^ 53" by (rule mult_le_mono1)
      also have "\<dots> = 2 ^ (s - 1 + 53)" by (simp only: power_add)
      also have "s - 1 + 53 = s + 52" using s1 by simp
      finally have "n * 2 ^ 53 \<le> p" using lower by simp
      with pn n(1) show False by simp
    qed
    have "round_to_53_bits p < n * 2 ^ 53"
    proof (cases "half < r \<or> (r = half \<and> odd q)")
      case False
      with R have "round_to_53_bits p = q * 2 ^ s" by simp
      with pq have "round_to_53_bits p \<le> p" by simp
      with pn n(1) show ?thesis by simp
    next
      case True
      then have rh: "half \<le> r" by auto
      from True R have "round_to_53_bits p = q * 2 ^ s + 2 * half"
        by (simp add: two_half algebra_simps)
      with pq rh have "round_to_53_bits p \<le> p + half" by simp
      with half_lt pn show ?thesis by simp
    qed
    from this pe show ?thesis unfolding p_def by (rule less_le_trans)
  qed
qed

lemma draw_in_range:
  assumes "random_double x" "0 < n" "n < 2 ^ 53"
  shows "random_index x n < n"
proof -
  from assms have "round_to_53_bits (fst x * n) < n * 2 ^ snd x"
    by (intro round_below_bound) (simp_all add: random_double_def)
  then show ?thesis
    unfolding random_index_def by (simp add: less_mult_imp_div_less)
qed

lemma set_add_props:
  assumes "distinct s" "set s \<subseteq> {..<n}" "x < n"
  shows "distinct (set_add s x)" "set (set_add s x) \<subseteq> {..<n}"
    "length (set_add s x) \<le> Suc (length s)" "length s \<le> length (set_add s x)"
  using assms by (auto simp: set_add_def)

lemma select_loop_partial:
  assumes run: "select_loop rnd n samples sel k = Some res"
  shows "(\<forall>j. random_double (rnd j)) \<longrightarrow> 0 < n \<longrightarrow> n < 2 ^ 53 \<longrightarrow>
         distinct sel \<longrightarrow> set sel \<subseteq> {..<n} \<longrightarrow> length sel \<le> samples \<longrightarrow>
         distinct (fst res) \<and> set (fst res) \<subseteq> {..<n} \<and> length (fst res) = samples \<and>
         k \<le> snd res"
proof (rule select_loop.raw_induct
    [where P = "\<lambda>rnd n samples sel k res.
         (\<forall>j. random_double (rnd j)) \<longrightarrow> 0 < n \<longrightarrow> n < 2 ^ 53 \<longrightarrow>
         distinct sel \<longrightarrow> set sel \<subseteq> {..<n} \<longrightarrow> length sel \<le> samples \<longrightarrow>
         distinct (fst res) \<and> set (fst res) \<subseteq> {..<n} \<and> length (fst res) = samples \<and>
         k \<le> snd res", OF _ run])
  fix loop :: "(nat \<Rightarrow> nat \<times> nat) \<Rightarrow> nat \<Rightarrow> nat \<Rightarrow> nat list \<Rightarrow> nat \<Rightarrow> (nat list \<times> nat) option"
    and rnd n samples sel k res
  assume IH: "\<And>rnd n samples sel k res. loop rnd n samples sel k = Some res \<Longrightarrow>
         (\<forall>j. random_double (rnd j)) \<longrightarrow> 0 < n \<longrightarrow> n < 2 ^ 53 \<longrightarrow>
         distinct sel \<longrightarrow> set sel \<subseteq> {..<n} \<longrightarrow> length sel \<le> samples \<longrightarrow>
         distinct (fst res) \<and> set (fst res) \<subseteq> {..<n} \<and> length (fst res) = samples \<and>
         k \<le> snd res"
    and step: "(if length sel < samples
      then (let randomIndex = random_index (rnd k) n
            in loop rnd n samples (set_add sel randomIndex) (Suc k))
      else Some (sel, k)) = Some res"
  show "(\<forall>j. random_double (rnd j)) \<longrightarrow> 0 < n \<longrightarrow> n < 2 ^ 53 \<longrightarrow>
         distinct sel \<longrightarrow> set sel \<subseteq> {..<n} \<longrightarrow> length sel \<le> samples \<longrightarrow>
         distinct (fst res) \<and> set (fst res) \<subseteq> {..<n} \<and> length (fst res) = samples \<and>
         k \<le> snd res"
  proof (intro impI)
    assume range: "\<forall>j. random_double (rnd j)" and n: "0 < n" and n53: "n < 2 ^ 53"
      and d: "distinct sel" and s: "set sel \<subseteq> {..<n}" and l: "length sel \<le> samples"
    show "distinct (fst res) \<and> set (fst res) \<subseteq> {..<n} \<and> length (fst res) = samples \<and>
         k \<le> snd res"
    proof (cases "length sel < samples")
      case False
      with step l d s show ?thesis by auto
    next
      case True
      let ?x = "random_index (rnd k) n"
      from True step have rec: "loop rnd n samples (set_add sel ?x) (Suc k) = Some res"
        by (simp add: Let_def)
      have x: "?x < n" using range n n53 by (simp add: draw_in_range)
      from set_add_props [OF d s x] True
      have "distinct (set_add sel ?x)" "set (set_add sel ?x) \<subseteq> {..<n}"
        "length (set_add sel ?x) \<le> samples" by simp_all
      with IH [OF rec] range n n53 show ?thesis by simp
    qed
  qed
qed

lemma select_loop_done:
  "\<not> length sel < samples \<Longrightarrow> select_loop rnd n samples sel k = Some (sel, k)"
  by (subst select_loop.simps) simp

lemma exists_fresh:
  assumes "distinct sel" "set sel \<subseteq> {..<n}" "length sel < n"
  shows "\<exists>i<n. i \<notin> set sel"
proof (rule ccontr)
  assume "\<not> (\<exists>i<n. i \<notin> set sel)"
  then have "{..<n} \<subseteq> set sel" by auto
  then have "card {..<n} \<le> card (set sel)" by (intro card_mono) simp_all
  then show False using assms by (simp add: distinct_card)
qed

lemma select_loop_terminates:
  assumes range: "\<forall>j. random_double (rnd j)"
    and fair: "\<forall>i<n. \<forall>j. \<exists>j'\<ge>j. random_index (rnd j') n = i"
    and n: "0 < n" and n53: "n < 2 ^ 53" and le: "samples \<le> n"
  shows "distinct sel \<Longrightarrow> set sel \<subseteq> {..<n} \<Longrightarrow> \<exists>res. select_loop rnd n samples sel k = Some res"
proof (induction "samples - length sel" arbitrary: sel k rule: less_induct)
  case less
  show ?case
  proof (cases "length sel < samples")
    case False
    then show ?thesis by (simp add: select_loop_done)
  next
    case True
    have grow: "\<exists>res. select_loop rnd n samples (sel @ [x]) k' = Some res"
      if "x < n" "x \<notin> set sel" for x k'
    proof (rule less.hyps)
      show "samples - length (sel @ [x]) < samples - length sel" using True by simp
      show "distinct (sel @ [x])" using less.prems that by simp
      show "set (sel @ [x]) \<subseteq> {..<n}" using less.prems that by simp
    qed
    have inner: "random_index (rnd (k + d)) n \<notin> set sel \<Longrightarrow>
                 \<exists>res. select_loop rnd n samples sel k = Some res" for d k
    proof (induction d arbitrary: k)
      case 0
      let ?x = "random_index (rnd k) n"
      have x: "?x < n" using range n n53 by (simp add: draw_in_range)
      from 0 have "set_add sel ?x = sel @ [?x]" by (simp add: set_add_def)
      with grow [OF x, of "Suc k"] 0 True show ?case
        by (subst select_loop.simps) (simp add: Let_def)
    next
      case (Suc d)
      let ?x = "random_index (rnd k) n"
      have x: "?x < n" using range n n53 by (simp add: draw_in_range)
      show ?case
      proof (cases "?x \<in> set sel")
        case False
        then have "set_add sel ?x = sel @ [?x]" by (simp add: set_add_def)
        with grow [OF x False, of "Suc k"] True show ?thesis
          by (subst select_loop.simps) (simp add: Let_def)
      next
        case in_sel: True
        then have same: "set_add sel ?x = sel" by (simp add: set_add_def)
        from Suc.prems have "random_index (rnd (Suc k + d)) n \<notin> set sel" by simp
        from Suc.IH [OF this] obtain res where "select_loop rnd n samples sel (Suc k) = Some res"
          by blast
        with same True show ?thesis
          by (subst select_loop.simps) (simp add: Let_def)
      qed
    qed
    from True le have "length sel < n" by simp
    from exists_fresh [OF less.prems this] obtain i where i: "i < n" "i \<notin> set sel" by blast
    from fair i(1) obtain j' where j': "k \<le> j'" "random_index (rnd j') n = i" by blast
    then have "random_index (rnd (k + (j' - k))) n \<notin> set sel" using i(2) by simp
    from inner [OF this] show ?thesis .
  qed
qed

lemma read_initial_balances_result:
  assumes "read_initial_balances env recipients amounts sel acc st = Some (Inr vd, st')"
  shows "map address_ve vd = map address_ve acc @ map ((!) recipients) sel \<and>
         map expectedAmount_ve vd = map expectedAmount_ve acc @ map ((!) amounts) sel"
  using assms
proof (induction sel arbitrary: acc st)
  case Nil
  then show ?case by (simp add: return_def)
next
  case (Cons index indexes)
  show ?case
  proof (cases "index < length recipients \<and> index < length amounts")
    case False
    with Cons.prems show ?thesis by (simp add: throw_def)
  next
    case True
    obtain r w' where op: "read_balanceOf env (recipients ! index) (world st) = (r, w')"
      by (cases "read_balanceOf env (recipients ! index) (world st)")
    show ?thesis
    proof (cases r)
      case (Inl e)
      with Cons.prems True op show ?thesis by (simp add: async_defs)
    next
      case (Inr balance)
      with Cons.prems True op
      have "read_initial_balances env recipients amounts indexes
               (acc @ [\<lparr>address_ve = recipients ! index, expectedAmount_ve = amounts ! index,
                    initialBalance = balance\<rparr>])
               (st\<lparr>world := w', trace := trace st @ [Call_balanceOf (recipients ! index)]\<rparr>) =
             Some (Inr vd, st')"
        by (simp add: async_defs)
      from Cons.IH [OF this] show ?thesis by simp
    qed
  qed
qed

lemma round_to_53_bits_exact:
  assumes "2 ^ (bit_length p - 53) dvd p"
  shows "round_to_53_bits p = p"
proof (cases "bit_length p \<le> 53")
  case True
  then show ?thesis by (simp add: round_to_53_bits_def)
next
  case False
  define s where "s = bit_length p - 53"
  have s1: "1 \<le> s" using False by (simp add: s_def)
  have r: "p mod 2 ^ s = 0" using assms by (simp add: s_def mod_eq_0_iff_dvd)
  have half: "(0::nat) < 2 ^ (s - 1)" by simp
  have "p div 2 ^ s * 2 ^ s = p" using assms by (simp add: s_def)
  with False r half show ?thesis
    by (simp add: round_to_53_bits_def Let_def flip: s_def)
qed

lemma random_index_dyadic:
  assumes "i < 16"
  shows "random_index (i * 2 ^ 49, 53) 16 = i"
proof -
  have p: "i * 2 ^ 49 * 16 = i * 2 ^ 53" by simp
  have "i * 2 ^ 53 < 16 * 2 ^ 53" using assms by simp
  then have "i * 2 ^ 53 < 2 ^ 57" by simp
  then have "bit_length (i * 2 ^ 53) \<le> 57" by (rule bit_length_le)
  then have "bit_length (i * 2 ^ 53) - 53 \<le> 53" by simp
  then have "(2::nat) ^ (bit_length (i * 2 ^ 53) - 53) dvd 2 ^ 53" by (rule le_imp_power_dvd)
  then have "2 ^ (bit_length (i * 2 ^ 53) - 53) dvd i * 2 ^ 53" by (rule dvd_mult)
  then have "round_to_53_bits (i * 2 ^ 53) = i * 2 ^ 53" by (rule round_to_53_bits_exact)
  then show ?thesis by (simp add: random_index_def p del: power_numeral)
qed



lemma read_initial_balances_returns:
  assumes reads: "\<forall>a w. \<exists>v w'. read_balanceOf env a w = (Inr v, w')"
  shows "\<forall>i \<in> set sel. i < length recipients \<and> i < length amounts \<Longrightarrow>
         \<exists>vd st'. read_initial_balances env recipients amounts sel acc st = Some (Inr vd, st')"
proof (induction sel arbitrary: acc st)
  case Nil
  then show ?case by (simp add: return_def)
next
  case (Cons index indexes)
  from reads obtain v w' where op: "read_balanceOf env (recipients ! index) (world st) = (Inr v, w')"
    by blast
  from Cons.prems have rest: "\<forall>i \<in> set indexes. i < length recipients \<and> i < length amounts"
    by simp
  from Cons.prems op Cons.IH [OF rest] show ?case by (simp add: async_defs)
qed


lemma select_two:
  assumes "random_index (rnd k) n = a" and "random_index (rnd (Suc k)) n = b" and "a \<noteq> b"
  shows "select_loop rnd n 2 [] k = Some ([a, b], Suc (Suc k))"
proof -
  have 3: "select_loop rnd n 2 [a, b] (Suc (Suc k)) = Some ([a, b], Suc (Suc k))"
    by (rule select_loop_done) simp
  have 2: "select_loop rnd n 2 [a] (Suc k) = select_loop rnd n 2 [a, b] (Suc (Suc k))"
    using assms by (subst select_loop.simps) (simp add: Let_def set_add_def)
  have 1: "select_loop rnd n 2 [] k = select_loop rnd n 2 [a] (Suc k)"
    using assms by (subst select_loop.simps) (simp add: Let_def set_add_def)
  from 1 2 3 show ?thesis by simp
qed



text \<open>
  Claim C6. For a batch of \<open>N \<ge> 1\<close> recipients (an array length, so below \<open>2^53\<close>)
  and results of \<^verbatim>\<open>Math.random\<close> that are doubles in \<open>[0, 1)\<close>, the number of
  samples computed in double precision is \<open>max 1 (min \<lceil>N / 10\<rceil> 10)\<close> and is at most
  \<open>N\<close>; when the selection loop returns, it has selected exactly that many indexes,
  pairwise distinct and all below \<open>N\<close>, and the verification data holds the recipient
  and amount at each of them; the loop returns whenever every index keeps being drawn;
  and when moreover every balance read succeeds, \<^const>\<open>prepareVerificationData\<close>
  returns verification data of exactly that many entries.
\<close>

theorem sample_selection:
  assumes "1 \<le> N" and "N < 2 ^ 53" and "\<forall>j. random_double (rnd j)"
  shows
    "samplesToCheck N = max 1 (min (nat \<lceil>of_nat N / (10 :: rat)\<rceil>) 10) \<and>
     samplesToCheck N \<le> N \<and>
     (\<forall>sel k'. select_loop rnd N (samplesToCheck N) [] k = Some (sel, k') \<longrightarrow>
        length sel = samplesToCheck N \<and> distinct sel \<and> (\<forall>i \<in> set sel. i < N)) \<and>
     ((\<forall>i<N. \<forall>j. \<exists>j'\<ge>j. random_index (rnd j') N = i) \<longrightarrow>
        (\<exists>sel k'. select_loop rnd N (samplesToCheck N) [] k = Some (sel, k'))) \<and>
     (\<forall>(env :: 'w env) recipients amounts st vd st'.
        Math_random env = rnd \<and> length recipients = N \<and> random_calls st = k \<and>
        prepareVerificationData env recipients amounts st = Some (Inr vd, st') \<longrightarrow>
        (\<exists>sel. length sel = samplesToCheck N \<and> distinct sel \<and> (\<forall>i \<in> set sel. i < N) \<and>
           map address_ve vd = map ((!) recipients) sel \<and>
           map expectedAmount_ve vd = map ((!) amounts) sel)) \<and>
     (\<forall>(env :: 'w env) recipients amounts st.
        Math_random env = rnd \<and> length recipients = N \<and> length amounts = N \<and>
        random_calls st = k \<and>
        (\<forall>i<N. \<forall>j. \<exists>j'\<ge>j. random_index (rnd j') N = i) \<and>
        (\<forall>a w. \<exists>balance w'. read_balanceOf env a w = (Inr balance, w')) \<longrightarrow>
        (\<exists>vd st'. prepareVerificationData env recipients amounts st = Some (Inr vd, st') \<and>
           length vd = samplesToCheck N))"
proof -
  have n: "0 < N" using assms(1) by simp
  have count: "samplesToCheck N = max 1 (min (nat \<lceil>of_nat N / (10 :: rat)\<rceil>) 10)"
    by (simp only: samplesToCheck_eq ceiling_tenth)
  have le: "samplesToCheck N \<le> N" using assms(1) by (rule samplesToCheck_le)
  have partial: "length sel = samplesToCheck N \<and> distinct sel \<and> (\<forall>i \<in> set sel. i < N)"
    if "select_loop rnd N (samplesToCheck N) [] k = Some (sel, k')" for sel k'
    using select_loop_partial [OF that] assms(2,3) n by auto
  have total: "\<exists>sel k'. select_loop rnd N (samplesToCheck N) [] k = Some (sel, k')"
    if "\<forall>i<N. \<forall>j. \<exists>j'\<ge>j. random_index (rnd j') N = i"
    using select_loop_terminates [OF assms(3) that n assms(2) le, of "[]" k] by auto
  have prep: "\<exists>sel. length sel = samplesToCheck N \<and> distinct sel \<and> (\<forall>i \<in> set sel. i < N) \<and>
           map address_ve vd = map ((!) recipients) sel \<and>
           map expectedAmount_ve vd = map ((!) amounts) sel"
    if a: "Math_random env = rnd \<and> length recipients = N \<and> random_calls st = k \<and>
        prepareVerificationData env recipients amounts st = Some (Inr vd, st')"
    for env :: "'w env" and recipients amounts st vd st'
  proof -
    from a obtain sel k' where
      sel: "select_loop rnd N (samplesToCheck N) [] k = Some (sel, k')"
      and rd: "read_initial_balances env recipients amounts sel [] (st\<lparr>random_calls := k'\<rparr>) =
                 Some (Inr vd, st')"
      by (auto simp: prepareVerificationData_def split: option.splits)
    from partial [OF sel] read_initial_balances_result [OF rd] show ?thesis by auto
  qed
  have produces: "\<exists>vd st'. prepareVerificationData env recipients amounts st = Some (Inr vd, st') \<and>
           length vd = samplesToCheck N"
    if a: "Math_random env = rnd \<and> length recipients = N \<and> length amounts = N \<and>
        random_calls st = k \<and>
        (\<forall>i<N. \<forall>j. \<exists>j'\<ge>j. random_index (rnd j') N = i) \<and>
        (\<forall>a w. \<exists>balance w'. read_balanceOf env a w = (Inr balance, w'))"
    for env :: "'w env" and recipients amounts st
  proof -
    from a have fair: "\<forall>i<N. \<forall>j. \<exists>j'\<ge>j. random_index (rnd j') N = i"
      and reads: "\<forall>a w. \<exists>balance w'. read_balanceOf env a w = (Inr balance, w')" by blast+
    from total [OF fair] obtain sel k' where
      sel: "select_loop rnd N (samplesToCheck N) [] k = Some (sel, k')" by blast
    from partial [OF sel] a
    have inside: "\<forall>i \<in> set sel. i < length recipients \<and> i < length amounts" by simp
    from read_initial_balances_returns [OF reads inside, of "[]" "st\<lparr>random_calls := k'\<rparr>"]
    obtain vd st' where
      rd: "read_initial_balances env recipients amounts sel [] (st\<lparr>random_calls := k'\<rparr>) =
             Some (Inr vd, st')" by blast
    from read_initial_balances_result [OF rd] have "length (map address_ve vd) = length sel"
      by simp
    with partial [OF sel] have len: "length vd = samplesToCheck N" by simp
    from a sel rd have "prepareVerificationData env recipients amounts st = Some (Inr vd, st')"
      by (simp add: prepareVerificationData_def)
    with len show ?thesis by blast
  qed
  from count le partial total prep produces show ?thesis by blast
qed

theorem sample_selection_witness:
  "(1::nat) \<le> 16 \<and> (16::nat) < 2 ^ 53 \<and>
   (\<forall>j. random_double ((j mod 16) * 2 ^ 49, 53)) \<and>
   samplesToCheck 16 = 2 \<and>
   (\<exists>sel k'.
      select_loop (\<lambda>j. ((j mod 16) * 2 ^ 49, 53)) 16 (samplesToCheck 16) [] 0 = Some (sel, k') \<and>
      length sel = 2 \<and> distinct sel \<and> (\<forall>i \<in> set sel. i < 16)) \<and>
   prepareVerificationData (example_env\<lparr>Math_random := (\<lambda>j. ((j mod 16) * 2 ^ 49, 53))\<rparr>)
     [''0xr0'', ''0xr1'', ''0xr2'', ''0xr3'', ''0xr4'', ''0xr5'', ''0xr6'', ''0xr7'',
      ''0xr8'', ''0xr9'', ''0xr10'', ''0xr11'', ''0xr12'', ''0xr13'', ''0xr14'', ''0xr15'']
     [1, 2, 3, 4, 5, 6, 7, 8, 9, 10, 11, 12, 13, 14, 15, 16] (example_state 0) =
     Some (Inr [\<lparr>address_ve = ''0xr0'', expectedAmount_ve = 1, initialBalance = 0\<rparr>,
                \<lparr>address_ve = ''0xr1'', expectedAmount_ve = 2, initialBalance = 5\<rparr>],
           \<lparr>world = \<lparr>allowance_w = 0, reads_w = 2\<rparr>, random_calls = 2,
            trace = [Call_balanceOf ''0xr0'', Call_balanceOf ''0xr1'']\<rparr>) \<and>
   length [\<lparr>address_ve = ''0xr0'', expectedAmount_ve = 1, initialBalance = 0\<rparr>,
           \<lparr>address_ve = ''0xr1'', expectedAmount_ve = 2, initialBalance = 5\<rparr>] =
     samplesToCheck 16"
proof -
  define rnd :: "nat \<Rightarrow> nat \<times> nat" where "rnd = (\<lambda>j. ((j mod 16) * 2 ^ 49, 53))"
  define env where "env = example_env\<lparr>Math_random := rnd\<rparr>"
  define recipients where "recipients =
     [''0xr0'', ''0xr1'', ''0xr2'', ''0xr3'', ''0xr4'', ''0xr5'', ''0xr6'', ''0xr7'',
      ''0xr8'', ''0xr9'', ''0xr10'', ''0xr11'', ''0xr12'', ''0xr13'', ''0xr14'', ''0xr15'']"
  define amounts :: "int list" where
    "amounts = [1, 2, 3, 4, 5, 6, 7, 8, 9, 10, 11, 12, 13, 14, 15, 16]"
  define vd where "vd = [\<lparr>address_ve = ''0xr0'', expectedAmount_ve = 1, initialBalance = 0\<rparr>,
                \<lparr>address_ve = ''0xr1'', expectedAmount_ve = 2, initialBalance = 5\<rparr>]"
  have range: "\<forall>j. random_double (rnd j)"
  proof
    fix j :: nat
    have "j mod 16 < 16" by simp
    then have "(j mod 16) * 2 ^ 49 < 16 * 2 ^ 49" by (simp del: power_numeral)
    then show "random_double (rnd j)" by (simp add: random_double_def rnd_def)
  qed
  have draw: "random_index (rnd j) 16 = j mod 16" for j
    unfolding rnd_def by (rule random_index_dyadic) simp
  have fair: "\<forall>i<16. \<forall>j. \<exists>j'\<ge>j. random_index (rnd j') 16 = i"
  proof (intro allI impI)
    fix i j :: nat assume "i < 16"
    then have "random_index (rnd (16 * j + i)) 16 = i" by (simp only: draw) simp
    moreover have "j \<le> 16 * j + i" by simp
    ultimately show "\<exists>j'\<ge>j. random_index (rnd j') 16 = i" by blast
  qed
  have one: "(1::nat) \<le> 16" and small: "(16::nat) < 2 ^ 53" by simp_all
  note t = sample_selection [OF one small range, of 0]
  from t have "samplesToCheck 16 = max 1 (min (nat \<lceil>of_nat 16 / (10 :: rat)\<rceil>) 10)"
    by (rule conjunct1)
  then have c: "samplesToCheck 16 = 2" by (simp only: ceiling_tenth)
  from t fair obtain sel k' where
    "select_loop rnd 16 (samplesToCheck 16) [] 0 = Some (sel, k')" by blast
  moreover from this t have "length sel = samplesToCheck 16 \<and> distinct sel \<and> (\<forall>i \<in> set sel. i < 16)"
    by blast
  ultimately have loop: "\<exists>sel k'. select_loop rnd 16 (samplesToCheck 16) [] 0 = Some (sel, k') \<and>
      length sel = 2 \<and> distinct sel \<and> (\<forall>i \<in> set sel. i < 16)" using c by auto
  have rnd_env: "Math_random env = rnd" by (simp add: env_def)
  have lens: "length recipients = 16" "length amounts = 16"
    by (simp_all add: recipients_def amounts_def)
  have st: "random_calls (example_state 0) = 0" by (simp add: example_state_def)
  have reads: "\<forall>a w. \<exists>balance w'. read_balanceOf env a w = (Inr balance, w')"
    by (simp add: env_def example_env_def)
  from t have "\<forall>(env :: example_world env) recipients amounts st.
        Math_random env = rnd \<and> length recipients = 16 \<and> length amounts = 16 \<and>
        random_calls st = 0 \<and>
        (\<forall>i<16. \<forall>j. \<exists>j'\<ge>j. random_index (rnd j') 16 = i) \<and>
        (\<forall>a w. \<exists>balance w'. read_balanceOf env a w = (Inr balance, w')) \<longrightarrow>
        (\<exists>vd st'. prepareVerificationData env recipients amounts st = Some (Inr vd, st') \<and>
           length vd = samplesToCheck 16)" by blast
  from this [rule_format, of env recipients amounts "example_state 0"] rnd_env lens st fair reads
  obtain vd' st' where
    run': "prepareVerificationData env recipients amounts (example_state 0) = Some (Inr vd', st')"
    and len: "length vd' = samplesToCheck 16" by blast
  have sel: "select_loop rnd 16 2 [] 0 = Some ([0, 1], 2)"
    using select_two [of rnd 0 16 0 1] by (simp add: draw numeral_2_eq_2)
  have run: "prepareVerificationData env recipients amounts (example_state 0) =
     Some (Inr vd,
           \<lparr>world = \<lparr>allowance_w = 0, reads_w = 2\<rparr>, random_calls = 2,
            trace = [Call_balanceOf ''0xr0'', Call_balanceOf ''0xr1'']\<rparr>)"
    by (simp add: prepareVerificationData_def rnd_env lens c sel example_state_def async_defs)
       (simp add: env_def example_env_def recipients_def amounts_def vd_def numeral_2_eq_2 async_defs)
  from run run' len have "length vd = samplesToCheck 16" by simp
  with range c one small loop run show ?thesis
    unfolding rnd_def env_def recipients_def amounts_def vd_def by (intro conjI)
qed
section \<open>Proofs: batch driver\<close>

lemma appendsI:
  assumes "\<And>st r st'. m st = Some (r, st') \<Longrightarrow> \<exists>new. trace st' = trace st @ new \<and> list_all P new"
  shows "appends P m"
  using assms unfolding appends_def by blast

lemma appendsD:
  assumes "appends P m" "m st = Some (r, st')"
  shows "\<exists>new. trace st' = trace st @ new \<and> list_all P new"
  using assms unfolding appends_def by blast

lemma appends_return: "appends P (return x)"
  by (rule appendsI) (simp add: return_def)

lemma appends_throw: "appends P (throw e)"
  by (rule appendsI) (simp add: throw_def)

lemma appends_emit: "P ev \<Longrightarrow> appends P (emit ev)"
  by (rule appendsI) (auto simp: emit_def)

lemma appends_call: "P ev \<Longrightarrow> appends P (call ev op)"
  by (rule appendsI) (auto simp: call_def split: prod.splits)

lemma appends_await:
  assumes "appends P m" "\<And>x. appends P (f x)"
  shows "appends P (await m f)"
proof (rule appendsI)
  fix st r st'
  assume run: "await m f st = Some (r, st')"
  then obtain r1 st1 where m: "m st = Some (r1, st1)"
    by (cases "m st") (auto simp: await_def)
  from appendsD [OF assms(1) m] obtain new1 where
    n1: "trace st1 = trace st @ new1" "list_all P new1" by blast
  show "\<exists>new. trace st' = trace st @ new \<and> list_all P new"
  proof (cases r1)
    case (Inl e)
    with run m n1 show ?thesis by (auto simp: await_def)
  next
    case (Inr x)
    with run m have "f x st1 = Some (r, st')" by (simp add: await_def)
    from appendsD [OF assms(2) this] obtain new2 where
      "trace st' = trace st1 @ new2" "list_all P new2" by blast
    with n1 have "trace st' = trace st @ (new1 @ new2) \<and> list_all P (new1 @ new2)" by simp
    then show ?thesis by blast
  qed
qed

lemma appends_try_catch:
  assumes "appends P m" "\<And>e. appends P (h e)"
  shows "appends P (try_catch m h)"
proof (rule appendsI)
  fix st r st'
  assume run: "try_catch m h st = Some (r, st')"
  then obtain r1 st1 where m: "m st = Some (r1, st1)"
    by (cases "m st") (auto simp: try_catch_def)
  from appendsD [OF assms(1) m] obtain new1 where
    n1: "trace st1 = trace st @ new1" "list_all P new1" by blast
  show "\<exists>new. trace st' = trace st @ new \<and> list_all P new"
  proof (cases r1)
    case (Inr x)
    with run m n1 show ?thesis by (auto simp: try_catch_def)
  next
    case (Inl e)
    with run m have "h e st1 = Some (r, st')" by (simp add: try_catch_def)
    from appendsD [OF assms(2) this] obtain new2 where
      "trace st' = trace st1 @ new2" "list_all P new2" by blast
    with n1 have "trace st' = trace st @ (new1 @ new2) \<and> list_all P (new1 @ new2)" by simp
    then show ?thesis by blast
  qed
qed


lemma appends_read_initial_balances:
  "appends (driver_event n) (read_initial_balances env recipients amounts sel acc)"
proof (induction sel arbitrary: acc)
  case Nil
  show ?case by (simp add: appends_return)
next
  case (Cons index indexes)
  show ?case
    by (simp add: appends_throw) (intro impI appends_await appends_call Cons.IH, simp)
qed

lemma appends_prepareVerificationData:
  "appends (driver_event n) (prepareVerificationData env recipients amounts)"
proof (rule appendsI)
  fix st r st'
  assume "prepareVerificationData env recipients amounts st = Some (r, st')"
  then obtain sel k where
    "read_initial_balances env recipients amounts sel [] (st\<lparr>random_calls := k\<rparr>) = Some (r, st')"
    by (auto simp: prepareVerificationData_def split: option.splits)
  from appendsD [OF appends_read_initial_balances this]
  show "\<exists>new. trace st' = trace st @ new \<and> list_all (driver_event n) new" by simp
qed

lemma appends_verifyBatchTransfers:
  "appends (driver_event n) (verifyBatchTransfers env vd m)"
  unfolding verifyBatchTransfers_def
proof (induction vd)
  case Nil
  show ?case by (simp add: appends_return)
next
  case (Cons entry entries)
  show ?case
    by (simp add: Let_def) (intro appends_await appends_call, simp, simp add: Cons.IH appends_throw)
qed

lemma appends_processSingleBatch:
  "appends (driver_event n) (processSingleBatch env token batch n)"
  unfolding processSingleBatch_def Let_def
  by (intro appends_await appends_try_catch appends_emit appends_call appends_throw
      appends_prepareVerificationData appends_verifyBatchTransfers) simp_all



















lemma example_env_fields:
  "read_balanceOf example_env a w =
     (if a = ''0xsigner'' then (Inr 1000, w)
      else (Inr (5 * int (reads_w w)), w\<lparr>reads_w := Suc (reads_w w)\<rparr>))"
  "read_allowance example_env owner spender w = (Inr (allowance_w w), w)"
  "write_approve example_env spender x w = (Inr ''0xapprove'', w\<lparr>allowance_w := x\<rparr>)"
  "waitForTransactionReceipt example_env h w = (Inr \<lparr>status = Success, blockNumber = 1\<rparr>, w)"
  "simulate_bulkSendERC20Different example_env token recipients amounts w =
     (if ''0xbad'' \<in> set recipients then (Inl (ClientError ''execution reverted''), w)
      else (Inr (), w))"
  "estimateGas_bulkSendERC20Different example_env token recipients amounts w =
     (if ''0xnogas'' \<in> set recipients then (Inl (ClientError ''gas estimation failed''), w)
      else (Inr 100000, w))"
  "write_bulkSendERC20Different example_env token recipients amounts gas w = (Inr ''0xbulk'', w)"
  "Math_random example_env = (\<lambda>k. (0, 53))"
  by (simp_all add: example_env_def)

lemma samplesToCheck_one: "samplesToCheck (Suc 0) = Suc 0"
  by (simp add: samplesToCheck_eq)

lemma random_index_zero: "random_index (0, e) n = 0"
  by (simp add: random_index_def round_to_53_bits_def bit_length.simps)

lemma select_loop_example: "select_loop (\<lambda>k. (0, 53)) (Suc 0) (Suc 0) [] k = Some ([0], Suc k)"
  by (subst select_loop.simps, simp add: set_add_def Let_def random_index_zero)
     (subst select_loop.simps, simp)

lemma example_prepare:
  assumes "a \<noteq> ''0xsigner''"
  shows "prepareVerificationData example_env [a] [x]
     \<lparr>world = \<lparr>allowance_w = al, reads_w = r\<rparr>, random_calls = k, trace = tr\<rparr> =
   Some (Inr [\<lparr>address_ve = a, expectedAmount_ve = x, initialBalance = 5 * int r\<rparr>],
     \<lparr>world = \<lparr>allowance_w = al, reads_w = Suc r\<rparr>, random_calls = Suc k,
      trace = tr @ [Call_balanceOf a]\<rparr>)"
  using assms
  by (simp add: prepareVerificationData_def samplesToCheck_one example_env_fields
      select_loop_example async_defs)

lemma example_batch_ok:
  "processSingleBatch example_env ''0xtoken'' [\<lparr>address_td = ''0xa'', amount = 5\<rparr>] n
     \<lparr>world = \<lparr>allowance_w = al, reads_w = r\<rparr>, random_calls = k, trace = tr\<rparr> =
   Some (Inr (),
     \<lparr>world = \<lparr>allowance_w = al, reads_w = Suc (Suc r)\<rparr>, random_calls = Suc k,
      trace = tr @ [Log_processing_batch n 1, Call_balanceOf ''0xa'',
                    Call_simulate ''0xtoken'' [''0xa''] [5],
                    Call_estimateGas ''0xtoken'' [''0xa''] [5],
                    Log_batch_sent n, Call_balanceOf ''0xa'']\<rparr>)"
  by (simp add: processSingleBatch_def Let_def async_defs example_prepare example_env_fields
      verifyBatchTransfers_def)


lemma example_batch_nogas:
  "processSingleBatch example_env ''0xtoken'' [\<lparr>address_td = ''0xnogas'', amount = 5\<rparr>] n
     \<lparr>world = \<lparr>allowance_w = al, reads_w = r\<rparr>, random_calls = k, trace = tr\<rparr> =
   Some (Inl (ClientError ''gas estimation failed''),
     \<lparr>world = \<lparr>allowance_w = al, reads_w = Suc r\<rparr>, random_calls = Suc k,
      trace = tr @ [Log_processing_batch n 1, Call_balanceOf ''0xnogas'',
                    Call_simulate ''0xtoken'' [''0xnogas''] [5],
                    Call_estimateGas ''0xtoken'' [''0xnogas''] [5],
                    Error_batch_failed n (ClientError ''gas estimation failed'')]\<rparr>)"
  by (simp add: processSingleBatch_def Let_def async_defs example_prepare example_env_fields
      verifyBatchTransfers_def)













text \<open>
  Claim C4, as the code has it. When the gas estimation of a batch fails with \<open>e\<close>,
  the helper \<^const>\<open>estimateGasCosts\<close> writes a warning and returns no estimate. The
  driver does not call the helper: in \<^const>\<open>processSingleBatch\<close>, once sampling and
  simulation succeeded, the failed estimation is logged as the failure of the batch
  and \<open>e\<close> is thrown again; nothing follows the estimation call but that log line, and
  the loop over the batches ends with \<open>e\<close> without processing a later batch.
\<close>

theorem gas_estimation_failure:
  assumes est: "estimateGas_bulkSendERC20Different env token (map address_td batch)
                  (map amount batch) w = (Inl e, w')"
  shows
    "(world st0 = w \<longrightarrow>
        estimateGasCosts env token (map address_td batch) (map amount batch) st0 =
          Some (Inr None,
                st0\<lparr>world := w',
                    trace := trace st0 @
                      [Call_estimateGas token (map address_td batch) (map amount batch),
                       Warn_could_not_estimate_gas e]\<rparr>)) \<and>
     (prepareVerificationData env (map address_td batch) (map amount batch)
          (st\<lparr>trace := trace st @ [Log_processing_batch (i + 1) (length batch)]\<rparr>) =
          Some (Inr vd, st1) \<and>
      simulate_bulkSendERC20Different env token (map address_td batch) (map amount batch)
          (world st1) = (Inr u, w) \<longrightarrow>
        processSingleBatch env token batch (i + 1) st =
          Some (Inl e,
                st1\<lparr>world := w',
                    trace := trace st1 @
                      [Call_simulate token (map address_td batch) (map amount batch),
                       Call_estimateGas token (map address_td batch) (map amount batch),
                       Error_batch_failed (i + 1) e]\<rparr>) \<and>
        processTransferBatches_loop env token (batch # batches) i st =
          Some (Inl e,
                st1\<lparr>world := w',
                    trace := trace st1 @
                      [Call_simulate token (map address_td batch) (map amount batch),
                       Call_estimateGas token (map address_td batch) (map amount batch),
                       Error_batch_failed (i + 1) e]\<rparr>))"
proof (intro conjI impI)
  assume "world st0 = w"
  with est show "estimateGasCosts env token (map address_td batch) (map amount batch) st0 =
          Some (Inr None,
                st0\<lparr>world := w',
                    trace := trace st0 @
                      [Call_estimateGas token (map address_td batch) (map amount batch),
                       Warn_could_not_estimate_gas e]\<rparr>)"
    by (simp add: estimateGasCosts_def async_defs)
next
  assume a: "prepareVerificationData env (map address_td batch) (map amount batch)
          (st\<lparr>trace := trace st @ [Log_processing_batch (i + 1) (length batch)]\<rparr>) =
          Some (Inr vd, st1) \<and>
      simulate_bulkSendERC20Different env token (map address_td batch) (map amount batch)
          (world st1) = (Inr u, w)"
  with est show single: "processSingleBatch env token batch (i + 1) st =
          Some (Inl e,
                st1\<lparr>world := w',
                    trace := trace st1 @
                      [Call_simulate token (map address_td batch) (map amount batch),
                       Call_estimateGas token (map address_td batch) (map amount batch),
                       Error_batch_failed (i + 1) e]\<rparr>)"
    by (simp add: processSingleBatch_def Let_def async_defs)
  then show "processTransferBatches_loop env token (batch # batches) i st =
          Some (Inl e,
                st1\<lparr>world := w',
                    trace := trace st1 @
                      [Call_simulate token (map address_td batch) (map amount batch),
                       Call_estimateGas token (map address_td batch) (map amount batch),
                       Error_batch_failed (i + 1) e]\<rparr>)"
    by (simp add: await_def)
qed

theorem gas_estimation_failure_witness:
  "estimateGas_bulkSendERC20Different example_env ''0xtoken'' [''0xnogas''] [5]
     \<lparr>allowance_w = 100, reads_w = 1\<rparr> =
     (Inl (ClientError ''gas estimation failed''), \<lparr>allowance_w = 100, reads_w = 1\<rparr>) \<and>
   estimateGasCosts example_env ''0xtoken'' [''0xnogas''] [5]
     \<lparr>world = \<lparr>allowance_w = 100, reads_w = 1\<rparr>, random_calls = 0, trace = []\<rparr> =
     Some (Inr None,
       \<lparr>world = \<lparr>allowance_w = 100, reads_w = 1\<rparr>, random_calls = 0,
        trace = [Call_estimateGas ''0xtoken'' [''0xnogas''] [5],
                 Warn_could_not_estimate_gas (ClientError ''gas estimation failed'')]\<rparr>) \<and>
   processTransferBatches_loop example_env ''0xtoken''
     [[\<lparr>address_td = ''0xnogas'', amount = 5\<rparr>], [\<lparr>address_td = ''0xa'', amount = 5\<rparr>]] 0
     (example_state 100) =
     Some (Inl (ClientError ''gas estimation failed''),
       \<lparr>world = \<lparr>allowance_w = 100, reads_w = 1\<rparr>, random_calls = 1,
        trace = [Log_processing_batch 1 1, Call_balanceOf ''0xnogas'',
                 Call_simulate ''0xtoken'' [''0xnogas''] [5],
                 Call_estimateGas ''0xtoken'' [''0xnogas''] [5],
                 Error_batch_failed 1 (ClientError ''gas estimation failed'')]\<rparr>)"
proof -
  let ?w = "\<lparr>allowance_w = 100, reads_w = 1\<rparr>"
  let ?b = "[\<lparr>address_td = ''0xnogas'', amount = 5\<rparr>]"
  let ?st0 = "\<lparr>world = ?w, random_calls = 0, trace = []\<rparr>"
  let ?st1 = "\<lparr>world = ?w, random_calls = 1,
               trace = [Log_processing_batch 1 1, Call_balanceOf ''0xnogas'']\<rparr>"
  have est: "estimateGas_bulkSendERC20Different example_env ''0xtoken'' (map address_td ?b)
      (map amount ?b) ?w = (Inl (ClientError ''gas estimation failed''), ?w)"
    by (simp add: example_env_fields)
  have prep: "prepareVerificationData example_env (map address_td ?b) (map amount ?b)
          ((example_state 100)\<lparr>trace := trace (example_state 100) @
               [Log_processing_batch (0 + 1) (length ?b)]\<rparr>) =
          Some (Inr [\<lparr>address_ve = ''0xnogas'', expectedAmount_ve = 5, initialBalance = 0\<rparr>], ?st1)"
    using example_prepare [of "''0xnogas''" 5 100 0 0 "[Log_processing_batch 1 1]"]
    by (simp add: example_state_def)
  have sim: "simulate_bulkSendERC20Different example_env ''0xtoken'' (map address_td ?b)
               (map amount ?b) (world ?st1) = (Inr (), ?w)"
    by (simp add: example_env_fields)
  note t = gas_estimation_failure [OF est, where ?st0.0 = ?st0 and st = "example_state 100"
      and i = 0 and vd = "[\<lparr>address_ve = ''0xnogas'', expectedAmount_ve = 5, initialBalance = 0\<rparr>]"
      and ?st1.0 = ?st1 and u = "()" and batches = "[[\<lparr>address_td = ''0xa'', amount = 5\<rparr>]]"]
  from t have 1: "estimateGasCosts example_env ''0xtoken'' [''0xnogas''] [5] ?st0 =
     Some (Inr None,
       \<lparr>world = ?w, random_calls = 0,
        trace = [Call_estimateGas ''0xtoken'' [''0xnogas''] [5],
                 Warn_could_not_estimate_gas (ClientError ''gas estimation failed'')]\<rparr>)"
    by simp
  from t prep sim have 2: "processTransferBatches_loop example_env ''0xtoken''
     (?b # [[\<lparr>address_td = ''0xa'', amount = 5\<rparr>]]) 0 (example_state 100) =
     Some (Inl (ClientError ''gas estimation failed''),
        \<lparr>world = ?w, random_calls = 1,
         trace = [Log_processing_batch 1 1, Call_balanceOf ''0xnogas'',
                 Call_simulate ''0xtoken'' [''0xnogas''] [5],
                 Call_estimateGas ''0xtoken'' [''0xnogas''] [5],
                 Error_batch_failed 1 (ClientError ''gas estimation failed'')]\<rparr>)"
    by simp
  from est 1 2 show ?thesis by simp
qed

text \<open>
  The claim as stated has the run go on after a failed gas estimation. In the example
  world the estimation fails for the first of two batches: the run throws that error,
  submits nothing and never reaches the second batch.
\<close>

theorem gas_estimation_fatal_counterexample:
  "processTransferBatches example_env ''0xtoken'' ''0xsender'' ''0xsigner''
     [[\<lparr>address_td = ''0xnogas'', amount = 5\<rparr>], [\<lparr>address_td = ''0xa'', amount = 5\<rparr>]]
     (example_state 100) =
     Some (Inl (ClientError ''gas estimation failed''),
       \<lparr>world = \<lparr>allowance_w = 100, reads_w = 1\<rparr>, random_calls = 1,
        trace = [Call_balanceOf ''0xsigner'', Call_allowance ''0xsigner'' ''0xsender'',
                 Log_processing_batch 1 1, Call_balanceOf ''0xnogas'',
                 Call_simulate ''0xtoken'' [''0xnogas''] [5],
                 Call_estimateGas ''0xtoken'' [''0xnogas''] [5],
                 Error_batch_failed 1 (ClientError ''gas estimation failed'')]\<rparr>)"
  by (simp add: processTransferBatches_def Let_def checkTokenBalance_def checkTokenAllowance_def
      example_state_def example_env_fields example_batch_nogas async_defs)

lemma bigint_div_nonneg: "0 \<le> g \<Longrightarrow> bigint_div g 10 = g div 10"
  by (cases "g = 0") (simp_all add: bigint_div_def sgn_if)

lemma verifyBatchTransfers_p1_loop_returns:
  "\<exists>r st'. verifyBatchTransfers_p1_loop env recipients j st = Some (r, st') \<and>
     (\<exists>new. trace st' = trace st @ new \<and> list_all (\<lambda>ev. \<not> is_submission ev) new)"
proof (induction j arbitrary: st)
  case 0
  show ?case by (simp add: return_def)
next
  case (Suc j)
  let ?i = "random_index (Math_random env (random_calls st)) (length recipients)"
  let ?st = "st\<lparr>random_calls := Suc (random_calls st)\<rparr>"
  show ?case
  proof (cases "?i < length recipients")
    case False
    then show ?thesis by (simp add: Let_def throw_def)
  next
    case True
    obtain r w' where op: "read_balanceOf env (recipients ! ?i) (world st) = (r, w')"
      by (cases "read_balanceOf env (recipients ! ?i) (world st)")
    show ?thesis
    proof (cases r)
      case (Inl e)
      with True op show ?thesis by (simp add: Let_def async_defs)
    next
      case (Inr b)
      let ?st2 = "st\<lparr>random_calls := Suc (random_calls st), world := w',
                     trace := trace st @ [Call_balanceOf (recipients ! ?i)]\<rparr>"
      from Suc.IH [of ?st2] obtain r2 st2 new where
        "verifyBatchTransfers_p1_loop env recipients j ?st2 = Some (r2, st2)"
        "trace st2 = trace ?st2 @ new" "list_all (\<lambda>ev. \<not> is_submission ev) new" by blast
      with True op Inr show ?thesis by (simp add: Let_def async_defs)
    qed
  qed
qed

text \<open>
  Claim C8. The driver of \<^verbatim>\<open>transferHelpers.ts\<close> never submits: whatever the
  clients answer, no event it adds to the trace is a submission. The driver of
  \<^verbatim>\<open>src/unnamed/part_001\<close> does what the claim says: when simulation, gas
  estimation and the write succeed, it submits the batch's recipients and amounts
  with the gas limit \<open>estimate + estimate / 10\<close> (truncated division), and makes no
  other submission.
\<close>

theorem processSingleBatch_submits_nothing:
  "(processSingleBatch env token batch n st = Some (r, st') \<longrightarrow>
      (\<exists>new. trace st' = trace st @ new \<and> list_all (\<lambda>ev. \<not> is_submission ev) new)) \<and>
   (simulate_bulkSendERC20Different env token (map address_td batch) (map amount batch)
        (world st) = (Inr u, w1) \<and>
    estimateGas_bulkSendERC20Different env token (map address_td batch) (map amount batch)
        w1 = (Inr g, w2) \<and>
    write_bulkSendERC20Different env token (map address_td batch) (map amount batch)
        (g + bigint_div g 10) w2 = (Inr h, w3) \<longrightarrow>
      (\<exists>r1 st1 rest.
         processSingleBatch_p1 env token batch n st = Some (r1, st1) \<and>
         trace st1 = trace st @
           [Log_processing_batch n (length batch),
            Call_simulate token (map address_td batch) (map amount batch),
            Call_estimateGas token (map address_td batch) (map amount batch),
            Call_write token (map address_td batch) (map amount batch) (g + bigint_div g 10),
            Log_batch_completed n h] @ rest \<and>
         list_all (\<lambda>ev. \<not> is_submission ev) rest)) \<and>
   (0 \<le> g \<longrightarrow> g + bigint_div g 10 = g + g div 10)"
proof (intro conjI impI)
  assume "processSingleBatch env token batch n st = Some (r, st')"
  from appendsD [OF appends_processSingleBatch this] obtain new where
    new: "trace st' = trace st @ new" "list_all (driver_event n) new" by blast
  have "\<not> is_submission ev" if "driver_event n ev" for ev
    using that by (cases ev) simp_all
  with new(2) have "list_all (\<lambda>ev. \<not> is_submission ev) new" by (auto simp: list_all_iff)
  with new(1) show "\<exists>new. trace st' = trace st @ new \<and> list_all (\<lambda>ev. \<not> is_submission ev) new"
    by blast
next
  assume a: "simulate_bulkSendERC20Different env token (map address_td batch) (map amount batch)
        (world st) = (Inr u, w1) \<and>
    estimateGas_bulkSendERC20Different env token (map address_td batch) (map amount batch)
        w1 = (Inr g, w2) \<and>
    write_bulkSendERC20Different env token (map address_td batch) (map amount batch)
        (g + bigint_div g 10) w2 = (Inr h, w3)"
  let ?evs = "[Log_processing_batch n (length batch),
            Call_simulate token (map address_td batch) (map amount batch),
            Call_estimateGas token (map address_td batch) (map amount batch),
            Call_write token (map address_td batch) (map amount batch) (g + bigint_div g 10),
            Log_batch_completed n h]"
  let ?st = "st\<lparr>world := w3, trace := trace st @ ?evs\<rparr>"
  from verifyBatchTransfers_p1_loop_returns
    [of env "map address_td batch" "min 3 (length (map address_td batch))" ?st]
  obtain r2 st2 new where
    v: "verifyBatchTransfers_p1 env (map address_td batch) ?st = Some (r2, st2)"
    and new: "trace st2 = trace st @ ?evs @ new" "list_all (\<lambda>ev. \<not> is_submission ev) new"
    unfolding verifyBatchTransfers_p1_def by auto
  show "\<exists>r1 st1 rest.
         processSingleBatch_p1 env token batch n st = Some (r1, st1) \<and>
         trace st1 = trace st @ ?evs @ rest \<and> list_all (\<lambda>ev. \<not> is_submission ev) rest"
  proof (cases r2)
    case (Inr x)
    with a v have "processSingleBatch_p1 env token batch n st = Some (Inr x, st2)"
      by (simp add: processSingleBatch_p1_def Let_def async_defs)
    with new show ?thesis by blast
  next
    case (Inl e)
    with a v have "processSingleBatch_p1 env token batch n st =
        Some (Inl e, st2\<lparr>trace := trace st2 @ [Error_batch_failed n e]\<rparr>)"
      by (simp add: processSingleBatch_p1_def Let_def async_defs)
    moreover have "trace (st2\<lparr>trace := trace st2 @ [Error_batch_failed n e]\<rparr>) =
        trace st @ ?evs @ (new @ [Error_batch_failed n e])" using new(1) by simp
    moreover have "list_all (\<lambda>ev. \<not> is_submission ev) (new @ [Error_batch_failed n e])"
      using new(2) by simp
    ultimately show ?thesis by blast
  qed
next
  assume "0 \<le> g"
  then show "g + bigint_div g 10 = g + g div 10" by (simp add: bigint_div_nonneg)
qed

theorem processSingleBatch_submits_nothing_witness:
  "processSingleBatch example_env ''0xtoken'' [\<lparr>address_td = ''0xa'', amount = 5\<rparr>] 1
     (example_state 100) =
     Some (Inr (),
       \<lparr>world = \<lparr>allowance_w = 100, reads_w = 2\<rparr>, random_calls = 1,
        trace = [Log_processing_batch 1 1, Call_balanceOf ''0xa'',
                 Call_simulate ''0xtoken'' [''0xa''] [5],
                 Call_estimateGas ''0xtoken'' [''0xa''] [5],
                 Log_batch_sent 1, Call_balanceOf ''0xa'']\<rparr>) \<and>
   (\<exists>new. [Log_processing_batch 1 1, Call_balanceOf ''0xa'',
            Call_simulate ''0xtoken'' [''0xa''] [5],
            Call_estimateGas ''0xtoken'' [''0xa''] [5],
            Log_batch_sent 1, Call_balanceOf ''0xa''] = [] @ new \<and>
          list_all (\<lambda>ev. \<not> is_submission ev) new) \<and>
   (\<exists>r1 st1 rest.
      processSingleBatch_p1 example_env ''0xtoken'' [\<lparr>address_td = ''0xa'', amount = 5\<rparr>] 1
        (example_state 100) = Some (r1, st1) \<and>
      trace st1 =
        [Log_processing_batch 1 1,
         Call_simulate ''0xtoken'' [''0xa''] [5],
         Call_estimateGas ''0xtoken'' [''0xa''] [5],
         Call_write ''0xtoken'' [''0xa''] [5] 110000,
         Log_batch_completed 1 ''0xbulk''] @ rest)"
proof -
  let ?b = "[\<lparr>address_td = ''0xa'', amount = 5\<rparr>]"
  let ?w = "\<lparr>allowance_w = 100, reads_w = 0\<rparr>"
  let ?s' = "\<lparr>world = \<lparr>allowance_w = 100, reads_w = 2\<rparr>, random_calls = 1,
        trace = [Log_processing_batch 1 1, Call_balanceOf ''0xa'',
                 Call_simulate ''0xtoken'' [''0xa''] [5],
                 Call_estimateGas ''0xtoken'' [''0xa''] [5],
                 Log_batch_sent 1, Call_balanceOf ''0xa'']\<rparr>"
  have run: "processSingleBatch example_env ''0xtoken'' ?b 1 (example_state 100) = Some (Inr (), ?s')"
    by (simp add: example_state_def example_batch_ok numeral_2_eq_2)
  have sim: "simulate_bulkSendERC20Different example_env ''0xtoken'' (map address_td ?b)
      (map amount ?b) (world (example_state 100)) = (Inr (), ?w)"
    by (simp add: example_env_fields example_state_def)
  have est: "estimateGas_bulkSendERC20Different example_env ''0xtoken'' (map address_td ?b)
      (map amount ?b) ?w = (Inr 100000, ?w)"
    by (simp add: example_env_fields)
  have g: "100000 + bigint_div 100000 10 = 110000"
    by (simp add: bigint_div_def)
  have wr: "write_bulkSendERC20Different example_env ''0xtoken'' (map address_td ?b)
      (map amount ?b) (100000 + bigint_div 100000 10) ?w = (Inr ''0xbulk'', ?w)"
    by (simp add: example_env_fields)
  note t = processSingleBatch_submits_nothing
    [where env = example_env and token = "''0xtoken''" and batch = ?b and n = 1
       and st = "example_state 100" and r = "Inr ()" and st' = ?s'
       and u = "()" and ?w1.0 = ?w and g = 100000 and ?w2.0 = ?w and h = "''0xbulk''"
       and ?w3.0 = ?w]
  from t run have 1: "\<exists>new. trace ?s' = trace (example_state 100) @ new \<and>
      list_all (\<lambda>ev. \<not> is_submission ev) new" by blast
  from t sim est wr have 2: "\<exists>r1 st1 rest.
      processSingleBatch_p1 example_env ''0xtoken'' ?b 1 (example_state 100) = Some (r1, st1) \<and>
      trace st1 = trace (example_state 100) @
        [Log_processing_batch 1 (length ?b),
         Call_simulate ''0xtoken'' (map address_td ?b) (map amount ?b),
         Call_estimateGas ''0xtoken'' (map address_td ?b) (map amount ?b),
         Call_write ''0xtoken'' (map address_td ?b) (map amount ?b) (100000 + bigint_div 100000 10),
         Log_batch_completed 1 ''0xbulk''] @ rest \<and>
      list_all (\<lambda>ev. \<not> is_submission ev) rest" by blast
  from 1 have e1: "\<exists>new. [Log_processing_batch 1 1, Call_balanceOf ''0xa'',
            Call_simulate ''0xtoken'' [''0xa''] [5],
            Call_estimateGas ''0xtoken'' [''0xa''] [5],
            Log_batch_sent 1, Call_balanceOf ''0xa''] = [] @ new \<and>
          list_all (\<lambda>ev. \<not> is_submission ev) new"
    by (simp add: example_state_def)
  from 2 have e2: "\<exists>r1 st1 rest.
      processSingleBatch_p1 example_env ''0xtoken'' ?b 1 (example_state 100) = Some (r1, st1) \<and>
      trace st1 =
        [Log_processing_batch 1 1,
         Call_simulate ''0xtoken'' [''0xa''] [5],
         Call_estimateGas ''0xtoken'' [''0xa''] [5],
         Call_write ''0xtoken'' [''0xa''] [5] 110000,
         Log_batch_completed 1 ''0xbulk''] @ rest"
    unfolding g by (simp add: example_state_def) blast
  from run e1 e2 show ?thesis by (intro conjI)
qed

section \<open>Proofs: duplicate recipients\<close>

lemma map_of_map_set: "map_of (map_set m k v) = (map_of m)(k \<mapsto> v)"
  by (induction m k v rule: map_set.induct) (auto simp: fun_eq_iff)

lemma keys_map_set:
  "map fst (map_set m k v) = (if k \<in> set (map fst m) then map fst m else map fst m @ [k])"
  by (induction m k v rule: map_set.induct) auto

lemma distinct_map_set: "distinct (map fst m) \<Longrightarrow> distinct (map fst (map_set m k v))"
  by (simp add: keys_map_set)

lemma set_keys_map_set: "fst ` set (map_set m k v) = insert k (fst ` set m)"
proof -
  have "set (map fst (map_set m k v)) = insert k (set (map fst m))"
    by (auto simp: keys_map_set)
  then show ?thesis by simp
qed

lemma loadRecipients_loop_spec:
  assumes "loadRecipients_loop records m0 = Inr m"
  shows "(distinct (map fst m0) \<longrightarrow> distinct (map fst m)) \<and>
         fst ` set m = fst ` set m0 \<union> (\<lambda>r. toLowerCase (r ! 0)) ` set records \<and>
         (\<forall>r \<in> set records. BigInt (remove_commas (r ! 1)) = Inr (parsed_amount r)) \<and>
         map_of m = foldl (\<lambda>f r. f(toLowerCase (r ! 0) \<mapsto> parsed_amount r)) (map_of m0) records"
  using assms
proof (induction records arbitrary: m0)
  case Nil
  then show ?case by simp
next
  case (Cons r records)
  from Cons.prems obtain a t rest where r: "r = a # t # rest"
    by (cases r; cases "tl r") auto
  with Cons.prems obtain v where v: "BigInt (remove_commas t) = Inr v"
    by (cases "BigInt (remove_commas t)") auto
  with r Cons.prems have rec: "loadRecipients_loop records (map_set m0 (toLowerCase a) v) = Inr m"
    by simp
  have pa: "parsed_amount r = v" "r ! 0 = a" "r ! 1 = t" using r v by (simp_all add: parsed_amount_def)
  note ih = Cons.IH [OF rec]
  have 1: "distinct (map fst m0) \<longrightarrow> distinct (map fst m)"
    using ih distinct_map_set [of m0 "toLowerCase a" v] by blast
  have 2: "fst ` set m = fst ` set m0 \<union> (\<lambda>r. toLowerCase (r ! 0)) ` set (r # records)"
    using ih pa(2) by (simp add: set_keys_map_set)
  have 3: "\<forall>r \<in> set (r # records). BigInt (remove_commas (r ! 1)) = Inr (parsed_amount r)"
    using ih pa v by simp
  have 4: "map_of m = foldl (\<lambda>f r. f(toLowerCase (r ! 0) \<mapsto> parsed_amount r)) (map_of m0)
             (r # records)"
    using ih pa by (simp only: foldl_Cons map_of_map_set)
  from 1 2 3 4 show ?case by blast
qed

lemma foldl_last_wins:
  assumes "i < length rs"
    and "\<forall>j<length rs. i < j \<longrightarrow> key (rs ! j) \<noteq> key (rs ! i)"
  shows "foldl (\<lambda>f r. f(key r \<mapsto> val r)) f0 rs (key (rs ! i)) = Some (val (rs ! i))"
  using assms
proof (induction rs rule: rev_induct)
  case Nil
  then show ?case by simp
next
  case (snoc r rs)
  show ?case
  proof (cases "i = length rs")
    case True
    then show ?thesis by simp
  next
    case False
    with snoc.prems(1) have i: "i < length rs" by simp
    have later: "\<forall>j<length rs. i < j \<longrightarrow> key (rs ! j) \<noteq> key (rs ! i)"
    proof (intro allI impI)
      fix j assume j: "j < length rs" "i < j"
      with snoc.prems(2) [rule_format, of j] i show "key (rs ! j) \<noteq> key (rs ! i)"
        by (simp add: nth_append)
    qed
    from snoc.prems(2) [rule_format, of "length rs"] i
    have "key r \<noteq> key (rs ! i)" by (simp add: nth_append)
    with snoc.IH [OF i later] i show ?thesis by (simp add: nth_append)
  qed
qed

lemma verifyTransfers_keys:
  "map address (verifyTransfers s e m) = map fst m \<and>
   map expectedAmount (verifyTransfers s e m) = map snd m"
  by (simp add: verifyTransfers_def verifyTransfers_loop_map verifyEntry_def Let_def)

lemma loadCSVData_loop_rows:
  assumes "loadCSVData_loop rows index = Inr entries"
  shows "length entries = length rows \<and>
         (\<forall>i<length rows. address_td (entries ! i) = trim (rows ! i ! 0))"
  using assms
proof (induction rows arbitrary: index entries)
  case Nil
  then show ?case by simp
next
  case (Cons row rows)
  from Cons.prems obtain entry where e: "validateAndParseRow row index = Inr entry"
    by (cases "validateAndParseRow row index") auto
  with Cons.prems obtain tl_entries where
    t: "loadCSVData_loop rows (index + 1) = Inr tl_entries" and es: "entries = entry # tl_entries"
    by (cases "loadCSVData_loop rows (index + 1)") auto
  from e have a: "address_td entry = trim (row ! 0)"
    by (auto simp: validateAndParseRow_def Let_def trim_def split: if_splits sum.splits)
  from Cons.IH [OF t] a es show ?case
    by (auto simp: nth_Cons split: nat.splits)
qed

lemma standard_token_fields:
  "token_allowance standard_token l owner spender = allowances l owner spender"
  "token_balanceOf standard_token l who = balances l who"
  "token_transferFrom standard_token caller from to a l =
     (if allowances l from caller < a then Inl (Revert ''ERC20InsufficientAllowance'')
      else move from to a
             (l\<lparr>allowances :=
                  (allowances l)(from := (allowances l from)(caller :=
                     allowances l from caller - a))\<rparr>))"
  "token_transfer standard_token caller to a l = move caller to a l"
  by (simp_all add: standard_token_def)

lemma move_balance:
  assumes "move from to a l = Inr l'" "r \<noteq> from"
  shows "balances l' r = balances l r + (if r = to then a else 0)"
  using assms by (auto simp: move_def Let_def split: if_splits)

lemma sent_to_Cons:
  "sent_to r (x # recipients) (a # amounts) =
     (if x = r then a else 0) + sent_to r recipients amounts"
  by (simp add: sent_to_def)

lemma sent_to_Nil: "sent_to r [] amounts = 0" "sent_to r recipients [] = 0"
  by (simp_all add: sent_to_def)

lemma distribute_balance:
  assumes "distribute standard_token this recipients amounts l = Inr l'" "r \<noteq> this"
  shows "balances l' r = balances l r + sent_to r recipients amounts"
  using assms
proof (induction recipients arbitrary: amounts l)
  case Nil
  then show ?case by (simp add: sent_to_Nil)
next
  case (Cons x recipients)
  show ?case
  proof (cases amounts)
    case Nil
    with Cons.prems show ?thesis by (simp add: sent_to_Nil)
  next
    case (Cons a rest)
    from Cons.prems(1) Cons have nz: "x \<noteq> zero_address" by (auto split: if_splits)
    with Cons.prems(1) Cons obtain l1 where
      m: "move this x a l = Inr l1"
      and run: "distribute standard_token this recipients rest l1 = Inr l'"
      by (cases "move this x a l") (auto simp: standard_token_fields)
    from Cons.IH [OF run Cons.prems(2)] move_balance [OF m Cons.prems(2)] Cons
    show ?thesis by (simp add: sent_to_Cons)
  qed
qed

lemma bulkSend_balance:
  assumes "bulkSendERC20Different standard_token c this token sender recipients amounts l = Inr l'"
    and "r \<noteq> sender" "r \<noteq> this"
  shows "balances l' r = balances l r + sent_to r recipients amounts"
proof -
  from assms(1) obtain total l1 where
    tf: "token_transferFrom standard_token this sender this total l = Inr l1"
    and d: "distribute standard_token this recipients amounts l1 = Inr l'"
    by (auto simp: bulkSendERC20Different_def split: if_splits sum.splits option.splits)
  from tf obtain l0 where m: "move sender this total l0 = Inr l1" and b0: "balances l0 = balances l"
    by (auto simp: standard_token_fields split: if_splits)
  from move_balance [OF m assms(2)] assms(3) b0 have "balances l1 r = balances l r" by simp
  with distribute_balance [OF d assms(3)] show ?thesis by simp
qed

text \<open>
  Claim C9. When \<^const>\<open>loadRecipients\<close> succeeds, the map it returns has one entry
  for each lower-cased address of the file; a row that is the last with its address,
  letter case aside, gives the entry its amount (the amounts of earlier rows with that
  address are replaced, not added), and \<^const>\<open>verifyTransfers\<close> yields one result
  for each entry, with that amount. The transfer list of the driver keeps one entry
  for each row, and on chain, with a standard token, a successful call credits an
  address with the sum of the amounts of all the rows that name it.
\<close>

theorem duplicate_rows_last_wins:
  assumes "loadRecipients records = Inr recipientMap"
  shows
    "distinct (map fst recipientMap) \<and>
     fst ` set recipientMap = (\<lambda>record. toLowerCase (record ! 0)) ` set records \<and>
     (\<forall>i<length records.
        (\<forall>j<length records. i < j \<longrightarrow>
           toLowerCase (records ! j ! 0) \<noteq> toLowerCase (records ! i ! 0)) \<longrightarrow>
        (\<exists>v. BigInt (remove_commas (records ! i ! 1)) = Inr v \<and>
             map_get recipientMap (toLowerCase (records ! i ! 0)) = Some v)) \<and>
     map address (verifyTransfers startBalances endBalances recipientMap) = map fst recipientMap \<and>
     map expectedAmount (verifyTransfers startBalances endBalances recipientMap) =
       map snd recipientMap \<and>
     (\<forall>rows entries.
        loadCSVData rows = Inr entries \<longrightarrow>
        length entries = length rows \<and>
        (\<forall>i<length rows. address_td (entries ! i) = trim (rows ! i ! 0))) \<and>
     (\<forall>c this token sender recipients amounts l l' r.
        bulkSendERC20Different standard_token c this token sender recipients amounts l = Inr l' \<and>
        r \<noteq> sender \<and> r \<noteq> this \<longrightarrow>
        balances l' r = balances l r + sent_to r recipients amounts)"
proof -
  from assms have run: "loadRecipients_loop records [] = Inr recipientMap"
    by (simp add: loadRecipients_def)
  note spec = loadRecipients_loop_spec [OF run]
  have 1: "distinct (map fst recipientMap)" using spec by simp
  have 2: "fst ` set recipientMap = (\<lambda>record. toLowerCase (record ! 0)) ` set records"
    using spec by simp
  have 3: "\<exists>v. BigInt (remove_commas (records ! i ! 1)) = Inr v \<and>
             map_get recipientMap (toLowerCase (records ! i ! 0)) = Some v"
    if i: "i < length records"
      and last: "\<forall>j<length records. i < j \<longrightarrow>
           toLowerCase (records ! j ! 0) \<noteq> toLowerCase (records ! i ! 0)" for i
  proof -
    from spec i have "BigInt (remove_commas (records ! i ! 1)) = Inr (parsed_amount (records ! i))"
      by simp
    moreover have "map_get recipientMap (toLowerCase (records ! i ! 0)) =
        Some (parsed_amount (records ! i))"
      using foldl_last_wins [of i records "\<lambda>r. toLowerCase (r ! 0)" parsed_amount, OF i last]
        spec by (simp add: map_get_def)
    ultimately show ?thesis by blast
  qed
  have 4: "map address (verifyTransfers startBalances endBalances recipientMap) =
             map fst recipientMap"
    "map expectedAmount (verifyTransfers startBalances endBalances recipientMap) =
       map snd recipientMap"
    using verifyTransfers_keys by simp_all
  have 5: "length entries = length rows \<and>
        (\<forall>i<length rows. address_td (entries ! i) = trim (rows ! i ! 0))"
    if "loadCSVData rows = Inr entries" for rows entries
    using that loadCSVData_loop_rows [of rows 0 entries] by (simp add: loadCSVData_def)
  have 6: "balances l' r = balances l r + sent_to r recipients amounts"
    if "bulkSendERC20Different standard_token c this token sender recipients amounts l = Inr l' \<and>
        r \<noteq> sender \<and> r \<noteq> this" for c this token sender recipients amounts l l' r
    using that bulkSend_balance by blast
  from 1 2 3 4 5 6 show ?thesis by blast
qed

theorem duplicate_rows_last_wins_witness:
  "loadRecipients [[''0xAB'', ''5''], [''0xab'', ''1,000'']] = Inr [(''0xab'', 1000)] \<and>
   map expectedAmount (verifyTransfers [] [(''0xab'', 1005)] [(''0xab'', 1000)]) = [1000] \<and>
   map matches (verifyTransfers [] [(''0xab'', 1005)] [(''0xab'', 1000)]) = [False] \<and>
   (\<exists>l'. bulkSendERC20Different standard_token \<lparr>recipientLimit = 200, paused = False\<rparr>
            ''0xbulk'' ''0xtoken'' ''0xsigner'' [''0xab'', ''0xab''] [5, 1000]
            \<lparr>balances = (\<lambda>a. if a = ''0xsigner'' then 2000 else 0),
             allowances = (\<lambda>owner spender. 2000)\<rparr> = Inr l' \<and>
         balances l' ''0xab'' = 1005)"
proof -
  let ?l = "\<lparr>balances = (\<lambda>a. if a = ''0xsigner'' then 2000 else 0),
             allowances = (\<lambda>owner spender. 2000 :: nat)\<rparr>"
  let ?c = "\<lparr>recipientLimit = 200, paused = False\<rparr>"
  have load: "loadRecipients [[''0xAB'', ''5''], [''0xab'', ''1,000'']] = Inr [(''0xab'', 1000)]"
    by (simp add: loadRecipients_def remove_commas_def BigInt_def trim_def is_space_def
        radix_prefix_def parse_digits_def is_radix_digit_def digit_val_def radix_value_def
        toLowerCase_def lower_char_def char_of_def bit_Suc_0_iff)
  note t = duplicate_rows_last_wins [OF load, of "[]" "[(''0xab'', 1005)]"]
  from t [THEN conjunct2, THEN conjunct2, THEN conjunct2, THEN conjunct2, THEN conjunct1]
  have e: "map expectedAmount (verifyTransfers [] [(''0xab'', 1005)] [(''0xab'', 1000)]) =
      [1000]" by simp
  have m: "map matches (verifyTransfers [] [(''0xab'', 1005)] [(''0xab'', 1000)]) = [False]"
    by (simp add: verifyTransfers_def verifyEntry_def get_or_zero_def map_get_def)
  have "\<exists>l'. bulkSendERC20Different standard_token ?c
            ''0xbulk'' ''0xtoken'' ''0xsigner'' [''0xab'', ''0xab''] [5, 1000] ?l = Inr l'"
    by (simp add: bulkSendERC20Different_def uint256_max_def validateERC20Transfer_def
        zero_address_def standard_token_fields move_def Let_def)
  then obtain l' where run: "bulkSendERC20Different standard_token ?c
            ''0xbulk'' ''0xtoken'' ''0xsigner'' [''0xab'', ''0xab''] [5, 1000] ?l = Inr l'"
    by blast
  have ne: "''0xab'' \<noteq> ''0xsigner''" "''0xab'' \<noteq> ''0xbulk''" by simp_all
  note on_chain = t [THEN conjunct2, THEN conjunct2, THEN conjunct2, THEN conjunct2,
      THEN conjunct2, THEN conjunct2, rule_format]
  from on_chain [of ?c "''0xbulk''" "''0xtoken''" "''0xsigner''" "[''0xab'', ''0xab'']"
      "[5, 1000]" ?l l' "''0xab''"] run ne
  have "balances l' ''0xab'' = balances ?l ''0xab'' + sent_to ''0xab'' [''0xab'', ''0xab''] [5, 1000]"
    by (simp only: simp_thms)
  then have "balances l' ''0xab'' = 1005" by (simp add: sent_to_def)
  with run have "\<exists>l'. bulkSendERC20Different standard_token ?c
            ''0xbulk'' ''0xtoken'' ''0xsigner'' [''0xab'', ''0xab''] [5, 1000] ?l = Inr l' \<and>
         balances l' ''0xab'' = 1005" by blast
  with load e m show ?thesis by (intro conjI)
qed

end
